theory Spec2Isabelle
  imports Complex_Main "HOL-Library.AList"
begin

text \<open>
  A shallow embedding of the core of Finance-Sorter (\<open>script.js\<close>): the field
  normalizers, the detection of the layout of a CSV file, the Categorizer with its
  store of keywords, and the handler that learns keywords and moves transactions to
  another category. The first part holds the functions of the code, the second part
  the vocabulary of the statements, the third part the theorems.
\<close>

section \<open>JavaScript strings\<close>

text \<open>
  A JavaScript string is modelled as a \<^typ>\<open>string\<close>, one \<^typ>\<open>char\<close> per code unit.
  The model is exact on ASCII text. A character above 127 stands for a code unit that
  is no white space, has no case mapping and is no word character; the Unicode white
  space and case mappings beyond ASCII are outside the model.
\<close>

definition is_digit :: "char \<Rightarrow> bool" where
  \<comment> \<open>the class \<open>\d\<close>\<close>
  "is_digit c = (c \<in> set ''0123456789'')"

definition is_space :: "char \<Rightarrow> bool" where
  \<comment> \<open>the class \<open>\s\<close>, also what \<open>trim\<close> removes: TAB, LF, VT, FF, CR, SP\<close>
  "is_space c = (c \<in> set [CHR 0x09, CHR 0x0A, CHR 0x0B, CHR 0x0C, CHR 0x0D, CHR '' ''])"

definition is_upper :: "char \<Rightarrow> bool" where
  "is_upper c = (c \<in> set ''ABCDEFGHIJKLMNOPQRSTUVWXYZ'')"

definition is_lower :: "char \<Rightarrow> bool" where
  "is_lower c = (c \<in> set ''abcdefghijklmnopqrstuvwxyz'')"

definition is_word :: "char \<Rightarrow> bool" where
  \<comment> \<open>the class \<open>\w\<close>\<close>
  "is_word c = (is_upper c \<or> is_lower c \<or> is_digit c \<or> c = CHR ''_'')"

definition is_line_terminator :: "char \<Rightarrow> bool" where
  \<comment> \<open>what \<open>.\<close> does not match\<close>
  "is_line_terminator c = (c = CHR 0x0A \<or> c = CHR 0x0D)"

fun subst :: "string \<Rightarrow> string \<Rightarrow> char \<Rightarrow> char" where
  "subst (a # as) (b # bs) c = (if c = a then b else subst as bs c)"
| "subst _ _ c = c"

definition upper :: "char \<Rightarrow> char" where
  "upper = subst ''abcdefghijklmnopqrstuvwxyz'' ''ABCDEFGHIJKLMNOPQRSTUVWXYZ''"

definition lower :: "char \<Rightarrow> char" where
  "lower = subst ''ABCDEFGHIJKLMNOPQRSTUVWXYZ'' ''abcdefghijklmnopqrstuvwxyz''"

definition toUpperCase :: "string \<Rightarrow> string" where
  "toUpperCase s = map upper s"

definition toLowerCase :: "string \<Rightarrow> string" where
  "toLowerCase s = map lower s"

definition trimStart :: "string \<Rightarrow> string" where
  "trimStart s = dropWhile is_space s"

definition trim :: "string \<Rightarrow> string" where
  "trim s = rev (dropWhile is_space (rev (dropWhile is_space s)))"

definition padStart2 :: "string \<Rightarrow> string" where
  \<comment> \<open>\<open>s.padStart(2, '0')\<close>\<close>
  "padStart2 s = replicate (2 - length s) (CHR ''0'') @ s"

definition all_digits :: "string \<Rightarrow> bool" where
  \<comment> \<open>\<open>/^\d+$/.test(s)\<close>\<close>
  "all_digits s = (s \<noteq> [] \<and> list_all is_digit s)"

section \<open>FieldNormalizer: normalizeDate\<close>

definition looksISO :: "string \<Rightarrow> bool" where
  \<comment> \<open>\<open>/^\d{4}-\d{2}-\d{2}$/.test(s)\<close>\<close>
  "looksISO s =
     (length s = 10 \<and> list_all is_digit (take 4 s) \<and> s ! 4 = CHR ''-''
      \<and> list_all is_digit (take 2 (drop 5 s)) \<and> s ! 7 = CHR ''-''
      \<and> list_all is_digit (drop 8 s))"

definition digits_1_2 :: "string \<Rightarrow> (string \<times> string) option" where
  \<comment> \<open>\<open>(\d{1,2})\<close> followed by \<open>\/\<close>: the captured digits and the text after the slash\<close>
  "digits_1_2 s =
     (let d = takeWhile is_digit s; r = dropWhile is_digit s
      in if (length d = 1 \<or> length d = 2) \<and> r \<noteq> [] \<and> hd r = CHR ''/''
         then Some (d, tl r) else None)"

definition execMDY :: "string \<Rightarrow> (string \<times> string \<times> string) option" where
  \<comment> \<open>\<open>/^(\d{1,2})\/(\d{1,2})\/(\d{4})$/.exec(s)\<close>: the three captures\<close>
  "execMDY s =
     (case digits_1_2 s of None \<Rightarrow> None
      | Some (m, r1) \<Rightarrow>
          (case digits_1_2 r1 of None \<Rightarrow> None
           | Some (d, r2) \<Rightarrow>
               if length r2 = 4 \<and> list_all is_digit r2 then Some (m, d, r2) else None))"

definition normalizeDate :: "string option \<Rightarrow> string" where
  \<comment> \<open>\<open>None\<close> is an absent cell (\<open>undefined\<close> or \<open>null\<close>)\<close>
  "normalizeDate raw =
     (case raw of None \<Rightarrow> []
      | Some r \<Rightarrow>
          if r = [] then []
          else let s = trim r in
            if looksISO s then s
            else (case execMDY s of
                    Some (m, d, y) \<Rightarrow> y @ ''-'' @ padStart2 m @ ''-'' @ padStart2 d
                  | None \<Rightarrow> s))"

section \<open>JavaScript numbers\<close>

text \<open>
  A Number is \<open>NaN\<close>, an infinity or a finite value. Finite values are modelled by
  their exact decimal value: the rounding of a parsed literal to the nearest double,
  overflow and underflow are outside the model, and the two zeros are one value.
\<close>

datatype number = NaN | NegInfinity | Fin rat | PosInfinity

fun gt0 :: "number \<Rightarrow> bool" where
  \<comment> \<open>\<open>n > 0\<close>\<close>
  "gt0 (Fin q) = (0 < q)"
| "gt0 PosInfinity = True"
| "gt0 _ = False"

fun neg :: "number \<Rightarrow> number" where
  "neg NaN = NaN"
| "neg NegInfinity = PosInfinity"
| "neg (Fin q) = Fin (- q)"
| "neg PosInfinity = NegInfinity"

fun math_abs :: "number \<Rightarrow> number" where
  \<comment> \<open>\<open>Math.abs\<close>\<close>
  "math_abs NaN = NaN"
| "math_abs NegInfinity = PosInfinity"
| "math_abs (Fin q) = Fin \<bar>q\<bar>"
| "math_abs PosInfinity = PosInfinity"

fun index_of :: "'a list \<Rightarrow> 'a \<Rightarrow> int" where
  "index_of [] c = 0"
| "index_of (x # xs) c = (if x = c then 0 else 1 + index_of xs c)"

definition digit_val :: "char \<Rightarrow> int" where
  "digit_val c = index_of ''0123456789'' c"

definition int_of_digits :: "string \<Rightarrow> int" where
  \<comment> \<open>the value of a string of decimal digits\<close>
  "int_of_digits ds = foldl (\<lambda>n c. 10 * n + digit_val c) 0 ds"

definition exp10 :: "int \<Rightarrow> rat" where
  "exp10 e = (if 0 \<le> e then 10 ^ nat e else 1 / 10 ^ nat (- e))"

definition exponentPart :: "string \<Rightarrow> int" where
  \<comment> \<open>the value of an \<open>ExponentPart\<close> at the start of the text, 0 when there is none\<close>
  "exponentPart r =
     (if r \<noteq> [] \<and> (hd r = CHR ''e'' \<or> hd r = CHR ''E'') then
        (let r1 = tl r;
             minus = (r1 \<noteq> [] \<and> hd r1 = CHR ''-'');
             r2 = (if r1 \<noteq> [] \<and> (hd r1 = CHR ''-'' \<or> hd r1 = CHR ''+'') then tl r1 else r1);
             ds = takeWhile is_digit r2
         in if ds = [] then 0
            else if minus then - int_of_digits ds else int_of_digits ds)
      else 0)"

definition unsignedDecimal :: "string \<Rightarrow> number option" where
  \<comment> \<open>the longest prefix that is a \<open>StrUnsignedDecimalLiteral\<close>, \<open>None\<close> when there is none\<close>
  "unsignedDecimal u =
     (if take 8 u = ''Infinity'' then Some PosInfinity
      else
        (let ip = takeWhile is_digit u;
             r = dropWhile is_digit u;
             dot = (r \<noteq> [] \<and> hd r = CHR ''.'');
             fp = (if dot then takeWhile is_digit (tl r) else []);
             r2 = (if dot then dropWhile is_digit (tl r) else r)
         in if ip = [] \<and> fp = [] then None
            else Some (Fin (of_int (int_of_digits (ip @ fp)) / 10 ^ length fp
                             * exp10 (exponentPart r2)))))"

definition parseFloat :: "string \<Rightarrow> number" where
  "parseFloat s =
     (let t = trimStart s;
          minus = (t \<noteq> [] \<and> hd t = CHR ''-'');
          u = (if t \<noteq> [] \<and> (hd t = CHR ''-'' \<or> hd t = CHR ''+'') then tl t else t)
      in case unsignedDecimal u of
           None \<Rightarrow> NaN
         | Some v \<Rightarrow> if minus then neg v else v)"

section \<open>FieldNormalizer: normalizeAmount\<close>

definition parenNeg :: "string \<Rightarrow> bool" where
  \<comment> \<open>\<open>/^\(.*\)$/.test(s)\<close>; \<open>.\<close> matches no line terminator\<close>
  "parenNeg s =
     (2 \<le> length s \<and> hd s = CHR ''('' \<and> last s = CHR '')''
      \<and> \<not> list_ex is_line_terminator (butlast (tl s)))"

definition normalizeAmount :: "string option \<Rightarrow> number" where
  \<comment> \<open>\<open>None\<close> is \<open>null\<close> or \<open>undefined\<close>\<close>
  "normalizeAmount raw =
     (case raw of None \<Rightarrow> Fin 0
      | Some r \<Rightarrow>
          (let s = trim r;
               pn = parenNeg s;
               s1 = filter (\<lambda>c. c \<noteq> CHR '','' \<and> c \<noteq> CHR ''$'') s;
               s2 = filter (\<lambda>c. c \<noteq> CHR ''('' \<and> c \<noteq> CHR '')'') s1;
               n = parseFloat (if s2 = [] then ''0'' else s2)
           in if n = NaN then Fin 0
              else if pn then neg (math_abs n) else n))"

section \<open>FieldNormalizer: cleanDesc\<close>

text \<open>
  The regular expressions of the source that are fixed are compiled by hand into
  matchers: a matcher takes the text from a start position on and returns the text
  after the match, or \<open>None\<close> when the pattern does not match there.
\<close>

definition lit_ci :: "string \<Rightarrow> string \<Rightarrow> string option" where
  \<comment> \<open>a literal under the flag \<open>i\<close>\<close>
  "lit_ci p s =
     (if length p \<le> length s \<and> map upper (take (length p) s) = map upper p
      then Some (drop (length p) s) else None)"

definition match_purchase :: "string \<Rightarrow> string option" where
  \<comment> \<open>\<open>/PURCHASE AUTHORIZED ON \d{2}\/\d{2}/i\<close>\<close>
  "match_purchase s =
     (case lit_ci ''PURCHASE AUTHORIZED ON '' s of None \<Rightarrow> None
      | Some r \<Rightarrow>
          (case r of
             a # b # c # d # e # rest \<Rightarrow>
               if is_digit a \<and> is_digit b \<and> c = CHR ''/'' \<and> is_digit d \<and> is_digit e
               then Some rest else None
           | _ \<Rightarrow> None))"

definition match_card :: "string \<Rightarrow> string option" where
  \<comment> \<open>\<open>/CARD \d+/i\<close>; the greedy \<open>\d+\<close> takes every digit that follows\<close>
  "match_card s =
     (case lit_ci ''CARD '' s of None \<Rightarrow> None
      | Some r \<Rightarrow> if r \<noteq> [] \<and> is_digit (hd r) then Some (dropWhile is_digit r) else None)"

fun remove_first :: "(string \<Rightarrow> string option) \<Rightarrow> string \<Rightarrow> string" where
  \<comment> \<open>\<open>s.replace(re, '')\<close> for a pattern without the flag \<open>g\<close>: the leftmost match goes\<close>
  "remove_first m [] = []"
| "remove_first m (c # cs) =
     (case m (c # cs) of Some rest \<Rightarrow> rest | None \<Rightarrow> c # remove_first m cs)"

function collapse_spaces :: "string \<Rightarrow> string" where
  \<comment> \<open>\<open>s.replace(/\s{2,}/g, ' ')\<close>\<close>
  "collapse_spaces [] = []"
| "collapse_spaces (c # cs) =
     (if is_space c \<and> cs \<noteq> [] \<and> is_space (hd cs)
      then CHR '' '' # collapse_spaces (dropWhile is_space cs)
      else c # collapse_spaces cs)"
  by pat_completeness auto
termination
  by (relation "measure length") (auto simp: length_dropWhile_le less_Suc_eq_le)

definition cleanDesc :: "string option \<Rightarrow> string" where
  \<comment> \<open>\<open>None\<close> is an absent cell; \<open>String(desc || '')\<close> makes it the empty string\<close>
  "cleanDesc desc =
     toUpperCase (trim (collapse_spaces (remove_first match_card
       (remove_first match_purchase (case desc of None \<Rightarrow> [] | Some d \<Rightarrow> d)))))"

section \<open>ProfileDetector\<close>

datatype profile =
  YourBank_NoHeader_5Cols | USBank_WithHeaders | USBank_NoHeaderBody | Unknown

definition cell :: "string list \<Rightarrow> nat \<Rightarrow> string" where
  \<comment> \<open>\<open>String(firstRow[i] || '').replace(/"/g,'').trim()\<close>\<close>
  "cell row i = trim (filter (\<lambda>c. c \<noteq> CHR 0x22) (if i < length row then row ! i else []))"

definition looksMDY :: "string \<Rightarrow> bool" where
  \<comment> \<open>\<open>/^\d{1,2}\/\d{1,2}\/\d{4}$/.test(s)\<close>\<close>
  "looksMDY s = (execMDY s \<noteq> None)"

definition detectProfile :: "string list option \<Rightarrow> profile" where
  \<comment> \<open>\<open>None\<close> is the \<open>null\<close> row of an empty preview\<close>
  "detectProfile firstRow =
     (case firstRow of None \<Rightarrow> Unknown
      | Some row \<Rightarrow>
          if length row < 3 then Unknown
          else
            (let c0 = cell row 0; c1 = cell row 1; c2 = cell row 2;
                 c3 = cell row 3; c4 = cell row 4
             in if toLowerCase c0 = ''date'' \<and> toLowerCase c1 = ''transaction''
                   \<and> toLowerCase c2 = ''name'' \<and> toLowerCase c3 = ''memo''
                   \<and> toLowerCase c4 = ''amount''
                then USBank_WithHeaders
                else if looksMDY c0 \<and> c2 = ''*'' then YourBank_NoHeader_5Cols
                else if looksISO c0 \<and> 5 \<le> length row then USBank_NoHeaderBody
                else Unknown))"

section \<open>Regular expressions built at run time\<close>

text \<open>
  The Categorizer builds one pattern per keyword with \<open>new RegExp(text, 'i')\<close>. The
  functions below take the constructor as a parameter \<open>RegExp\<close>: a pattern text either
  throws or gives the predicate that \<open>test\<close> computes. \<open>js_RegExp\<close> is a model of the
  constructor on a fragment of the pattern language: literal characters, \<open>.\<close>, the
  escapes \<open>\d \D \w \W \s \S \f \n \r \t \v\<close>, identity escapes, the assertions
  \<open>^ $ \b \B\<close>, groups \<open>( )\<close> and \<open>(?: )\<close>, alternation and the quantifiers
  \<open>* + ?\<close> (greedy or lazy). A pattern with any other construct (character classes,
  braces, back references, look-around, named groups, the escapes \<open>\c \x \u \k\<close>) gives
  \<open>Unmodelled\<close>, and nothing is claimed about it. Without captures a match depends on
  positions only, so \<open>test\<close> is computed from the set of positions where a match that
  starts at a given position can end. A match never moves backwards, so the positions
  that a repetition reaches are all found after as many rounds as the text has
  positions.
\<close>

datatype error = SyntaxError | TypeError | Unmodelled

datatype cclass = DigitClass | WordClass | SpaceClass

datatype regex =
    Eps
  | Chr char
  | Dot
  | Cls cclass
  | NotCls cclass
  | WordBoundary
  | NotWordBoundary
  | Bol
  | Eol
  | Seq regex regex
  | Alt regex regex
  | Star regex

datatype quantifier = QStar | QPlus | QOpt

datatype token = TAtom regex | TAssert regex | TQuant quantifier | TBar | TOpen | TClose

definition escape :: "char \<Rightarrow> token option" where
  \<comment> \<open>the character after a backslash; \<open>None\<close> is an escape outside the fragment\<close>
  "escape d =
     (if d = CHR ''b'' then Some (TAssert WordBoundary)
      else if d = CHR ''B'' then Some (TAssert NotWordBoundary)
      else if d = CHR ''d'' then Some (TAtom (Cls DigitClass))
      else if d = CHR ''D'' then Some (TAtom (NotCls DigitClass))
      else if d = CHR ''w'' then Some (TAtom (Cls WordClass))
      else if d = CHR ''W'' then Some (TAtom (NotCls WordClass))
      else if d = CHR ''s'' then Some (TAtom (Cls SpaceClass))
      else if d = CHR ''S'' then Some (TAtom (NotCls SpaceClass))
      else if d = CHR ''f'' then Some (TAtom (Chr (CHR 0x0C)))
      else if d = CHR ''n'' then Some (TAtom (Chr (CHR 0x0A)))
      else if d = CHR ''r'' then Some (TAtom (Chr (CHR 0x0D)))
      else if d = CHR ''t'' then Some (TAtom (Chr (CHR 0x09)))
      else if d = CHR ''v'' then Some (TAtom (Chr (CHR 0x0B)))
      else if is_digit d \<or> d \<in> set ''cxuk'' then None
      else Some (TAtom (Chr d)))"

fun tokenize :: "string \<Rightarrow> error + token list" where
  "tokenize [] = Inr []"
| "tokenize (c # cs) =
     (if c = CHR 0x5C then
        (case cs of
           [] \<Rightarrow> Inl SyntaxError
         | d # ds \<Rightarrow>
             (case escape d of
                None \<Rightarrow> Inl Unmodelled
              | Some t \<Rightarrow> map_sum id ((#) t) (tokenize ds)))
      else if c \<in> set ''[]{}'' then Inl Unmodelled
      else if c = CHR ''('' then
        (case cs of
           [] \<Rightarrow> map_sum id ((#) TOpen) (tokenize cs)
         | d # ds \<Rightarrow>
             if d = CHR ''?'' then
               (case ds of
                  [] \<Rightarrow> Inl Unmodelled
                | e # es \<Rightarrow>
                    if e = CHR '':'' then map_sum id ((#) TOpen) (tokenize es)
                    else Inl Unmodelled)
             else map_sum id ((#) TOpen) (tokenize cs))
      else if c = CHR '')'' then map_sum id ((#) TClose) (tokenize cs)
      else if c = CHR ''|'' then map_sum id ((#) TBar) (tokenize cs)
      else if c \<in> set ''*+?'' then
        (let q = (if c = CHR ''*'' then QStar else if c = CHR ''+'' then QPlus else QOpt)
         in case cs of
              [] \<Rightarrow> map_sum id ((#) (TQuant q)) (tokenize cs)
            | d # ds \<Rightarrow>
                if d = CHR ''?'' then map_sum id ((#) (TQuant q)) (tokenize ds)
                else map_sum id ((#) (TQuant q)) (tokenize cs))
      else if c = CHR ''^'' then map_sum id ((#) (TAssert Bol)) (tokenize cs)
      else if c = CHR ''$'' then map_sum id ((#) (TAssert Eol)) (tokenize cs)
      else if c = CHR ''.'' then map_sum id ((#) (TAtom Dot)) (tokenize cs)
      else map_sum id ((#) (TAtom (Chr c))) (tokenize cs))"

fun quantified :: "quantifier \<Rightarrow> regex \<Rightarrow> regex" where
  "quantified QStar r = Star r"
| "quantified QPlus r = Seq r (Star r)"
| "quantified QOpt r = Alt r Eps"

text \<open>
  A frame holds one disjunction under construction: the alternatives that are complete
  (latest first), the terms of the current alternative (latest first), and whether the
  latest term may take a quantifier.
\<close>

type_synonym frame = "regex list \<times> regex list \<times> bool"

definition sequence :: "regex list \<Rightarrow> regex" where
  "sequence terms = foldr Seq (rev terms) Eps"

definition close_frame :: "frame \<Rightarrow> regex" where
  "close_frame f =
     (case f of (alts, cur, q) \<Rightarrow> foldl (\<lambda>r a. Alt a r) (sequence cur) alts)"

fun parse :: "token list \<Rightarrow> frame \<Rightarrow> frame list \<Rightarrow> error + regex" where
  "parse [] f stack = (if stack = [] then Inr (close_frame f) else Inl SyntaxError)"
| "parse (TAtom a # ts) (alts, cur, q) stack = parse ts (alts, a # cur, True) stack"
| "parse (TAssert a # ts) (alts, cur, q) stack = parse ts (alts, a # cur, False) stack"
| "parse (TQuant k # ts) (alts, cur, q) stack =
     (case cur of
        [] \<Rightarrow> Inl SyntaxError
      | x # xs \<Rightarrow>
          if q then parse ts (alts, quantified k x # xs, False) stack
          else Inl SyntaxError)"
| "parse (TBar # ts) (alts, cur, q) stack = parse ts (sequence cur # alts, [], False) stack"
| "parse (TOpen # ts) f stack = parse ts ([], [], False) (f # stack)"
| "parse (TClose # ts) f [] = Inl SyntaxError"
| "parse (TClose # ts) f ((alts, cur, q) # stack) =
     parse ts (alts, close_frame f # cur, True) stack"

fun in_class :: "cclass \<Rightarrow> char \<Rightarrow> bool" where
  "in_class DigitClass c = is_digit c"
| "in_class WordClass c = is_word c"
| "in_class SpaceClass c = is_space c"

definition word_at :: "string \<Rightarrow> nat \<Rightarrow> bool" where
  "word_at s i = (i < length s \<and> is_word (s ! i))"

definition at_boundary :: "string \<Rightarrow> nat \<Rightarrow> bool" where
  \<comment> \<open>\<open>\b\<close>: exactly one of the characters before and after the position is a word character\<close>
  "at_boundary s i = ((0 < i \<and> word_at s (i - 1)) \<noteq> word_at s i)"

fun iterate_star :: "(nat \<Rightarrow> nat list) \<Rightarrow> nat \<Rightarrow> nat list \<Rightarrow> nat list" where
  "iterate_star f 0 ps = ps"
| "iterate_star f (Suc n) ps = iterate_star f n (remdups (ps @ concat (map f ps)))"

primrec ends :: "regex \<Rightarrow> string \<Rightarrow> nat \<Rightarrow> nat list" where
  \<comment> \<open>the positions where a match of the expression that starts at \<open>i\<close> can end\<close>
  "ends Eps s i = [i]"
| "ends (Chr c) s i = (if i < length s \<and> upper (s ! i) = upper c then [Suc i] else [])"
| "ends Dot s i = (if i < length s \<and> \<not> is_line_terminator (s ! i) then [Suc i] else [])"
| "ends (Cls k) s i = (if i < length s \<and> in_class k (s ! i) then [Suc i] else [])"
| "ends (NotCls k) s i = (if i < length s \<and> \<not> in_class k (s ! i) then [Suc i] else [])"
| "ends WordBoundary s i = (if at_boundary s i then [i] else [])"
| "ends NotWordBoundary s i = (if at_boundary s i then [] else [i])"
| "ends Bol s i = (if i = 0 then [i] else [])"
| "ends Eol s i = (if i = length s then [i] else [])"
| "ends (Seq r1 r2) s i = concat (map (ends r2 s) (ends r1 s i))"
| "ends (Alt r1 r2) s i = ends r1 s i @ ends r2 s i"
| "ends (Star r) s i = iterate_star (ends r s) (Suc (length s)) [i]"

definition regex_test :: "regex \<Rightarrow> string \<Rightarrow> bool" where
  \<comment> \<open>\<open>re.test(s)\<close>: a match starts at some position\<close>
  "regex_test r s = list_ex (\<lambda>i. ends r s i \<noteq> []) [0..<Suc (length s)]"

type_synonym regexp_ctor = "string \<Rightarrow> error + (string \<Rightarrow> bool)"

definition compile :: "string \<Rightarrow> error + regex" where
  \<comment> \<open>the pattern text as an expression, or the exception of the constructor\<close>
  "compile p =
     (case tokenize p of
        Inl e \<Rightarrow> Inl e
      | Inr ts \<Rightarrow> parse ts ([], [], False) [])"

definition js_RegExp :: regexp_ctor where
  \<comment> \<open>\<open>new RegExp(p, 'i')\<close> on the fragment\<close>
  "js_RegExp p = map_sum id regex_test (compile p)"

section \<open>CategoryStore and Categorizer\<close>

record txn =
  Date :: string
  Amount :: number
  Description :: string

text \<open>
  An object whose values are strings is the list of its properties in the order of
  their creation. \<open>CATEGORIES\<close>, the base table, is declared outside the source files and
  is a parameter.
\<close>

type_synonym store = "(string \<times> string) list"

type_synonym groups = "(string \<times> txn list) list"

definition spread :: "store \<Rightarrow> store \<Rightarrow> store" where
  \<comment> \<open>\<open>{ ...acc, ...obj }\<close>: a property that exists keeps its place and takes the new value\<close>
  "spread acc obj = fold (\<lambda>(k, v). AList.update k v) obj acc"

definition is_array_index :: "string \<Rightarrow> bool" where
  \<comment> \<open>a canonical numeric string below \<open>2^32 - 1\<close>\<close>
  "is_array_index k =
     (all_digits k \<and> (k = ''0'' \<or> hd k \<noteq> CHR ''0'') \<and> int_of_digits k < 4294967295)"

definition own_keys :: "store \<Rightarrow> string list" where
  \<comment> \<open>\<open>Object.keys(obj)\<close>: array indices in ascending order, then the other keys in
      the order of their creation\<close>
  "own_keys obj =
     (let ks = map fst obj
      in sort_key int_of_digits (filter is_array_index ks)
         @ filter (\<lambda>k. \<not> is_array_index k) ks)"

definition sortedKeywords :: "store \<Rightarrow> string list" where
  \<comment> \<open>\<open>Object.keys(allCats).sort((a, b) => b.length - a.length)\<close>; the sort is stable\<close>
  "sortedKeywords allCats = sort_key (\<lambda>k. - int (length k)) (own_keys allCats)"

definition getProp :: "store \<Rightarrow> string \<Rightarrow> string" where
  \<comment> \<open>\<open>allCats[keyword]\<close>\<close>
  "getProp obj k = (case map_of obj k of Some v \<Rightarrow> v | None \<Rightarrow> ''undefined'')"

definition strictClean :: "string \<Rightarrow> string" where
  \<comment> \<open>the second cleaning pass, on \<open>row.Description\<close>\<close>
  "strictClean d =
     trim (filter (\<lambda>c. is_upper c \<or> is_digit c \<or> c = CHR '' '')
       (toUpperCase (collapse_spaces (remove_first match_card
         (remove_first match_purchase d)))))"

definition keywordPattern :: "string \<Rightarrow> string" where
  \<comment> \<open>the template literal \<open>\\b${keywordUpper}\\b\<close>\<close>
  "keywordPattern keyword = [CHR 0x5C, CHR ''b''] @ toUpperCase keyword @ [CHR 0x5C, CHR ''b'']"

fun firstMatch :: "regexp_ctor \<Rightarrow> store \<Rightarrow> string \<Rightarrow> string list \<Rightarrow> error + string" where
  \<comment> \<open>the loop over \<open>sortedKeywords\<close>, from \<open>category = 'Uncategorized'\<close>\<close>
  "firstMatch RegExp allCats desc [] = Inr ''Uncategorized''"
| "firstMatch RegExp allCats desc (keyword # rest) =
     (case RegExp (keywordPattern keyword) of
        Inl e \<Rightarrow> Inl e
      | Inr test \<Rightarrow>
          if test desc then Inr (getProp allCats keyword)
          else firstMatch RegExp allCats desc rest)"

definition categoryOf ::
  "regexp_ctor \<Rightarrow> store \<Rightarrow> string list \<Rightarrow> txn \<Rightarrow> error + string" where
  \<comment> \<open>the category of one row; \<open>parseFloat\<close> of a Number is that Number\<close>
  "categoryOf RegExp allCats keywords row =
     (if gt0 (Amount row) then Inr ''Income''
      else firstMatch RegExp allCats (strictClean (Description row)) keywords)"

definition object_prototype_names :: "string list" where
  \<comment> \<open>the properties every object inherits\<close>
  "object_prototype_names =
     [''constructor'', ''__defineGetter__'', ''__defineSetter__'', ''hasOwnProperty'',
      ''__lookupGetter__'', ''__lookupSetter__'', ''isPrototypeOf'',
      ''propertyIsEnumerable'', ''toString'', ''valueOf'', ''__proto__'',
      ''toLocaleString'']"

definition pushTo :: "groups \<Rightarrow> string \<Rightarrow> txn \<Rightarrow> error + groups" where
  \<comment> \<open>\<open>if (!obj[c]) obj[c] = []; obj[c].push(t)\<close>: an inherited property is truthy
      and has no \<open>push\<close>\<close>
  "pushTo g c t =
     (case map_of g c of
        Some ts \<Rightarrow> Inr (AList.update c (ts @ [t]) g)
      | None \<Rightarrow>
          if c \<in> set object_prototype_names then Inl TypeError
          else Inr (g @ [(c, [t])]))"

fun categorizeRows ::
  "regexp_ctor \<Rightarrow> store \<Rightarrow> string list \<Rightarrow> txn list \<Rightarrow> groups \<Rightarrow> error + groups" where
  \<comment> \<open>\<open>data.forEach\<close>; an exception ends it\<close>
  "categorizeRows RegExp allCats keywords [] g = Inr g"
| "categorizeRows RegExp allCats keywords (row # rows) g =
     (case categoryOf RegExp allCats keywords row of
        Inl e \<Rightarrow> Inl e
      | Inr category \<Rightarrow>
          (case pushTo g category
                  \<lparr>Date = Date row, Amount = Amount row,
                   Description = strictClean (Description row)\<rparr> of
             Inl e \<Rightarrow> Inl e
           | Inr g' \<Rightarrow> categorizeRows RegExp allCats keywords rows g'))"

definition categorizeTransactions ::
  "regexp_ctor \<Rightarrow> store \<Rightarrow> store \<Rightarrow> txn list \<Rightarrow> error + groups" where
  \<comment> \<open>\<open>custom\<close> is what \<open>getCustomCategories()\<close> reads from the local storage\<close>
  "categorizeTransactions RegExp CATEGORIES custom data =
     (let allCats = spread (spread [] CATEGORIES) custom
      in categorizeRows RegExp allCats (sortedKeywords allCats) data [])"

section \<open>KeywordLearner and ReassignmentEngine\<close>

fun split_on :: "char \<Rightarrow> string \<Rightarrow> string list" where
  \<comment> \<open>\<open>s.split(d)\<close>\<close>
  "split_on d [] = [[]]"
| "split_on d (c # cs) =
     (if c = d then [] # split_on d cs
      else (case split_on d cs of [] \<Rightarrow> [[c]] | p # ps \<Rightarrow> (c # p) # ps))"

definition keywordsOf :: "string \<Rightarrow> string list" where
  \<comment> \<open>the keywords kept from the answer to the prompt\<close>
  "keywordsOf rawInput =
     filter (\<lambda>k. 3 \<le> length k \<and> \<not> all_digits k)
       (map (\<lambda>k. toUpperCase (trim k)) (split_on (CHR '','') rawInput))"

fun moveSelected :: "string \<Rightarrow> txn list \<Rightarrow> groups \<Rightarrow> error + groups" where
  \<comment> \<open>the first \<open>selectedRows.forEach\<close> of the move\<close>
  "moveSelected chosenCategory [] g = Inr g"
| "moveSelected chosenCategory (sel # sels) g =
     (case pushTo g chosenCategory sel of
        Inl e \<Rightarrow> Inl e
      | Inr g' \<Rightarrow> moveSelected chosenCategory sels g')"

definition sameRow :: "txn \<Rightarrow> txn \<Rightarrow> bool" where
  \<comment> \<open>\<open>input.dataset.desc === txn.Description && input.dataset.date === txn.Date\<close>\<close>
  "sameRow sel t = (Description sel = Description t \<and> Date sel = Date t)"

definition removeFromOld :: "string \<Rightarrow> txn list \<Rightarrow> groups \<Rightarrow> groups" where
  \<comment> \<open>the loop \<open>for (const category in categorized)\<close>\<close>
  "removeFromOld chosenCategory selected g =
     map (\<lambda>(category, ts).
            if category = chosenCategory then (category, ts)
            else (category, filter (\<lambda>t. \<not> list_ex (\<lambda>sel. sameRow sel t) selected) ts)) g"

definition reassign :: "string \<Rightarrow> txn list \<Rightarrow> groups \<Rightarrow> error + groups" where
  "reassign chosenCategory selected g =
     (case moveSelected chosenCategory selected g of
        Inl e \<Rightarrow> Inl e
      | Inr g' \<Rightarrow> Inr (removeFromOld chosenCategory selected g'))"

datatype alert = SelectATransaction | EnterACategoryName | EnterAKeyword

datatype outcome = Done | Alerted alert | Threw error

record app_state =
  customCategories :: store
  categorized :: groups

definition assignSelected ::
  "txn list \<Rightarrow> string \<Rightarrow> string \<Rightarrow> string option \<Rightarrow> app_state \<Rightarrow> outcome \<times> app_state" where
  \<comment> \<open>\<open>assignBtn.onclick\<close>: the checked rows, the value of the drop-down, the value of
      the text input, the answer to the prompt (\<open>None\<close> when it is cancelled), and the
      state; the result is how the handler ends and the state it leaves. The phrases
      that the prompt suggests are shown to the user and enter the result through the
      answer only\<close>
  "assignSelected selectedRows dropdown inputValue rawInput st =
     (if selectedRows = [] then (Alerted SelectATransaction, st)
      else
        (let isNew = (dropdown = ''New Category...'');
             newCatName = trim inputValue
         in if isNew \<and> newCatName = [] then (Alerted EnterACategoryName, st)
            else
              (let chosenCategory = (if isNew then newCatName else dropdown)
               in case rawInput of
                    None \<Rightarrow> (Alerted EnterAKeyword, st)
                  | Some r \<Rightarrow>
                      if r = [] then (Alerted EnterAKeyword, st)
                      else
                        (let keywords = keywordsOf r;
                             custom = fold (\<lambda>keyword. AList.update keyword chosenCategory)
                                        keywords (customCategories st);
                             st1 = st\<lparr>customCategories := custom\<rparr>
                         in case reassign chosenCategory selectedRows (categorized st1) of
                              Inl e \<Rightarrow> (Threw e, st1)
                            | Inr g \<Rightarrow> (Done, st1\<lparr>categorized := g\<rparr>)))))"

section \<open>Vocabulary of the statements\<close>

text \<open>
  The predicates and functions of this section say in the words of the specification
  what the theorems compare with the functions of the code: the shapes of a date, a
  value wrapped in parentheses, an occurrence of a boilerplate pattern, the removal of
  the first occurrence and of every occurrence, a keyword that occurs as a whole word,
  a cell with what surrounds it stripped, the ordered rules of the profiles.
\<close>

definition builds :: "regexp_ctor \<Rightarrow> string \<Rightarrow> bool" where
  \<comment> \<open>building the pattern of the keyword does not throw\<close>
  "builds RegExp keyword = (\<not> isl (RegExp (keywordPattern keyword)))"

definition keywordMatches :: "regexp_ctor \<Rightarrow> string \<Rightarrow> string \<Rightarrow> bool" where
  \<comment> \<open>the test of the code: the pattern built from the keyword is found in the
      description\<close>
  "keywordMatches RegExp keyword desc =
     (case RegExp (keywordPattern keyword) of Inl e \<Rightarrow> False | Inr test \<Rightarrow> test desc)"

definition shapeISO :: "string \<Rightarrow> bool" where
  \<comment> \<open>the shape \<open>YYYY-MM-DD\<close>: four digits, two digits, two digits\<close>
  "shapeISO s =
     (\<exists>y m d. s = y @ ''-'' @ m @ ''-'' @ d
        \<and> list_all is_digit y \<and> length y = 4
        \<and> list_all is_digit m \<and> length m = 2
        \<and> list_all is_digit d \<and> length d = 2)"

definition monthDayYear :: "string \<Rightarrow> string \<Rightarrow> string \<Rightarrow> bool" where
  \<comment> \<open>a month and a day of one or two digits each, and a year of four digits\<close>
  "monthDayYear m d y =
     (list_all is_digit m \<and> (length m = 1 \<or> length m = 2)
      \<and> list_all is_digit d \<and> (length d = 1 \<or> length d = 2)
      \<and> list_all is_digit y \<and> length y = 4)"

definition shapeMDY :: "string \<Rightarrow> bool" where
  \<comment> \<open>the shapes \<open>M/D/YYYY\<close> and \<open>MM/DD/YYYY\<close>\<close>
  "shapeMDY s = (\<exists>m d y. s = m @ ''/'' @ d @ ''/'' @ y \<and> monthDayYear m d y)"

definition zeroPadded :: "string \<Rightarrow> string" where
  \<comment> \<open>a month or a day on two digits\<close>
  "zeroPadded s = (if length s = 1 then CHR ''0'' # s else s)"

definition equalIgnoringCase :: "string \<Rightarrow> string \<Rightarrow> bool" where
  "equalIgnoringCase a b = (toLowerCase a = toLowerCase b)"

definition wrappedInParentheses :: "string \<Rightarrow> bool" where
  \<comment> \<open>the text starts with \<open>(\<close> and ends with \<open>)\<close>\<close>
  "wrappedInParentheses s = (\<exists>mid. s = ''('' @ mid @ '')'')"

definition wrappedOnOneLine :: "string \<Rightarrow> bool" where
  \<comment> \<open>the same, with no line terminator between the parentheses\<close>
  "wrappedOnOneLine s = (\<exists>mid. s = ''('' @ mid @ '')'' \<and> \<not> list_ex is_line_terminator mid)"

definition withoutAmountMarks :: "string \<Rightarrow> string" where
  \<comment> \<open>the text without commas, dollar signs and parentheses\<close>
  "withoutAmountMarks s = filter (\<lambda>c. c \<notin> set '',$()'') s"

definition isPurchaseBoilerplate :: "string \<Rightarrow> bool" where
  \<comment> \<open>an occurrence of \<open>PURCHASE AUTHORIZED ON <2 digits>/<2 digits>\<close>, in any case\<close>
  "isPurchaseBoilerplate w =
     (\<exists>p a b c d. w = p @ [a, b, CHR ''/'', c, d]
        \<and> toUpperCase p = ''PURCHASE AUTHORIZED ON ''
        \<and> is_digit a \<and> is_digit b \<and> is_digit c \<and> is_digit d)"

definition isCardNumber :: "string \<Rightarrow> bool" where
  \<comment> \<open>an occurrence of \<open>CARD <digits>\<close>, in any case\<close>
  "isCardNumber w =
     (\<exists>p ds. w = p @ ds \<and> toUpperCase p = ''CARD '' \<and> ds \<noteq> [] \<and> list_all is_digit ds)"

definition occursIn :: "(string \<Rightarrow> bool) \<Rightarrow> string \<Rightarrow> bool" where
  "occursIn L s = (\<exists>pre w post. s = pre @ w @ post \<and> L w)"

definition firstOccurrenceRemoved :: "(string \<Rightarrow> bool) \<Rightarrow> string \<Rightarrow> string \<Rightarrow> bool" where
  \<comment> \<open>\<open>s'\<close> is \<open>s\<close> without its leftmost occurrence, the longest one that starts there;
      \<open>s'\<close> is \<open>s\<close> when there is no occurrence\<close>
  "firstOccurrenceRemoved L s s' =
     ((\<not> occursIn L s \<and> s' = s)
      \<or> (\<exists>pre w post. s = pre @ w @ post \<and> L w \<and> s' = pre @ post
            \<and> \<not> (\<exists>pre' w' post'. s = pre' @ w' @ post' \<and> L w' \<and> length pre' < length pre)
            \<and> \<not> (\<exists>w' post'. w @ post = w' @ post' \<and> L w' \<and> length w < length w')))"

function remove_every :: "(string \<Rightarrow> string option) \<Rightarrow> string \<Rightarrow> string" where
  \<comment> \<open>what \<open>s.replace(re, '')\<close> would do for a pattern with the flag \<open>g\<close>: every match
      goes, from left to right\<close>
  "remove_every m [] = []"
| "remove_every m (c # cs) =
     (case m (c # cs) of
        None \<Rightarrow> c # remove_every m cs
      | Some rest \<Rightarrow> if length rest \<le> length cs then remove_every m rest else rest)"
  by pat_completeness auto
termination
  by (relation "measure (\<lambda>(m, s). length s)") auto

definition cleanDescEveryOccurrence :: "string \<Rightarrow> string" where
  \<comment> \<open>\<open>cleanDesc\<close> with every occurrence of the two patterns removed\<close>
  "cleanDescEveryOccurrence d =
     toUpperCase (trim (collapse_spaces (remove_every match_card
       (remove_every match_purchase d))))"


definition adjacentWhitespace :: "string \<Rightarrow> bool" where
  \<comment> \<open>a run of two or more white space characters\<close>
  "adjacentWhitespace s = (\<exists>pre a b post. s = pre @ a # b # post \<and> is_space a \<and> is_space b)"


definition occursAsWholeWord :: "string \<Rightarrow> string \<Rightarrow> bool" where
  \<comment> \<open>the text of the keyword, in any case, stands in the description between two
      word boundaries: of the characters on either side of each end, exactly one is a
      word character\<close>
  "occursAsWholeWord keyword desc =
     list_ex (\<lambda>i.
        let pre = take i desc;
            w = take (length keyword) (drop i desc);
            post = drop (length keyword) (drop i desc)
        in equalIgnoringCase w keyword
           \<and> ((pre \<noteq> [] \<and> is_word (last pre)) \<noteq> (w @ post \<noteq> [] \<and> is_word (hd (w @ post))))
           \<and> ((pre @ w \<noteq> [] \<and> is_word (last (pre @ w))) \<noteq> (post \<noteq> [] \<and> is_word (hd post))))
       [0..<Suc (length desc)]"

definition cellText :: "string list \<Rightarrow> nat \<Rightarrow> string" where
  \<comment> \<open>the text of a cell of the row; a missing cell is empty\<close>
  "cellText row i = (if i < length row then row ! i else [])"

definition strippedOf :: "(char \<Rightarrow> bool) \<Rightarrow> string \<Rightarrow> string \<Rightarrow> bool" where
  \<comment> \<open>\<open>t\<close> is \<open>s\<close> without the characters of the class that surround it: what is cut
      off at either end is of the class, and \<open>t\<close> neither starts nor ends with a
      character of the class\<close>
  "strippedOf P s t =
     (\<exists>pre post. s = pre @ t @ post \<and> list_all P pre \<and> list_all P post
        \<and> \<not> (\<exists>c r. t = c # r \<and> P c) \<and> \<not> (\<exists>r c. t = r @ [c] \<and> P c))"

definition surroundingStripped :: "string list \<Rightarrow> nat \<Rightarrow> string \<Rightarrow> bool" where
  \<comment> \<open>\<open>t\<close> is the cell with the surrounding double quotes and white space stripped\<close>
  "surroundingStripped row i t =
     strippedOf (\<lambda>c. c = CHR 0x22 \<or> is_space c) (cellText row i) t"

definition unquotedAndTrimmed :: "string list \<Rightarrow> nat \<Rightarrow> string \<Rightarrow> bool" where
  \<comment> \<open>\<open>t\<close> is the cell with every double quote removed, wherever it stands, and then
      the surrounding white space stripped\<close>
  "unquotedAndTrimmed row i t = strippedOf is_space (removeAll (CHR 0x22) (cellText row i)) t"

definition profileByRules ::
  "nat \<Rightarrow> string \<Rightarrow> string \<Rightarrow> string \<Rightarrow> string \<Rightarrow> string \<Rightarrow> profile" where
  \<comment> \<open>the ordered rules on the number of cells of the row and the five cleaned cells\<close>
  "profileByRules n c0 c1 c2 c3 c4 =
     (if n < 3 then Unknown
      else if equalIgnoringCase c0 ''date'' \<and> equalIgnoringCase c1 ''transaction''
            \<and> equalIgnoringCase c2 ''name'' \<and> equalIgnoringCase c3 ''memo''
            \<and> equalIgnoringCase c4 ''amount'' then USBank_WithHeaders
      else if shapeMDY c0 \<and> c2 = ''*'' then YourBank_NoHeader_5Cols
      else if shapeISO c0 \<and> 5 \<le> n then USBank_NoHeaderBody
      else Unknown)"

section \<open>Categorizer: positive amounts\<close>

lemma pushTo_same:
  "pushTo g c t = Inr g' \<Longrightarrow> \<exists>ts. map_of g' c = Some ts \<and> t \<in> set ts"
  by (auto simp: pushTo_def update_conv' map_add_def split: option.splits if_splits)

lemma pushTo_keeps:
  "pushTo g c t = Inr g' \<Longrightarrow> map_of g c' = Some ts \<Longrightarrow> x \<in> set ts \<Longrightarrow>
   \<exists>ts'. map_of g' c' = Some ts' \<and> x \<in> set ts'"
  by (cases "c' = c")
    (auto simp: pushTo_def update_conv' map_add_def split: option.splits if_splits)

lemma categorizeRows_keeps:
  "categorizeRows RegExp allCats keywords data g = Inr g' \<Longrightarrow>
   map_of g c = Some ts \<Longrightarrow> x \<in> set ts \<Longrightarrow>
   \<exists>ts'. map_of g' c = Some ts' \<and> x \<in> set ts'"
proof (induction data arbitrary: g ts)
  case Nil
  then show ?case by simp
next
  case (Cons row rows)
  from Cons.prems(1) obtain category g1 where
    p: "pushTo g category \<lparr>Date = Date row, Amount = Amount row,
          Description = strictClean (Description row)\<rparr> = Inr g1"
    and r: "categorizeRows RegExp allCats keywords rows g1 = Inr g'"
    by (auto split: sum.splits)
  from pushTo_keeps [OF p Cons.prems(2,3)] obtain ts1 where
    "map_of g1 c = Some ts1" "x \<in> set ts1"
    by blast
  with Cons.IH [OF r] show ?case by blast
qed

lemma categorizeRows_income:
  "categorizeRows RegExp allCats keywords data g = Inr g' \<Longrightarrow>
   row \<in> set data \<Longrightarrow> gt0 (Amount row) \<Longrightarrow>
   \<exists>ts. map_of g' ''Income'' = Some ts
     \<and> \<lparr>Date = Date row, Amount = Amount row,
          Description = strictClean (Description row)\<rparr> \<in> set ts"
proof (induction data arbitrary: g)
  case Nil
  then show ?case by simp
next
  case (Cons r rows)
  from Cons.prems(1) obtain category g1 where
    c: "categoryOf RegExp allCats keywords r = Inr category"
    and p: "pushTo g category \<lparr>Date = Date r, Amount = Amount r,
          Description = strictClean (Description r)\<rparr> = Inr g1"
    and rest: "categorizeRows RegExp allCats keywords rows g1 = Inr g'"
    by (auto split: sum.splits)
  show ?case
  proof (cases "row = r")
    case True
    with Cons.prems(3) c have "category = ''Income''"
      by (simp add: categoryOf_def)
    with p True pushTo_same obtain ts1 where
      "map_of g1 ''Income'' = Some ts1"
      "\<lparr>Date = Date row, Amount = Amount row,
         Description = strictClean (Description row)\<rparr> \<in> set ts1"
      by blast
    then show ?thesis
      by (rule categorizeRows_keeps [OF rest])
  next
    case False
    with Cons.prems(2) have "row \<in> set rows" by simp
    from Cons.IH [OF rest this Cons.prems(3)] show ?thesis .
  qed
qed

text \<open>
  C1. A transaction whose Amount is greater than 0 gets the category "Income", for
  every constructor of regular expressions (also one that always throws, so no pattern
  is built), every store, every list of keywords and every Description. Categorising
  that one transaction returns the single group "Income", and whenever categorising a
  list of transactions returns a grouping, each of its transactions with a positive
  Amount is in the group "Income" of that grouping.
\<close>

theorem positive_amount_is_income:
  assumes "gt0 (Amount row)"
  shows "categoryOf RegExp allCats ks row = Inr ''Income''
       \<and> categorizeTransactions RegExp CATEGORIES custom [row]
           = Inr [(''Income'', [\<lparr>Date = Date row, Amount = Amount row,
                                  Description = strictClean (Description row)\<rparr>])]
       \<and> (row \<in> set data \<and> categorizeTransactions RegExp CATEGORIES custom data = Inr g
            \<longrightarrow> (\<exists>ts. map_of g ''Income'' = Some ts
                  \<and> \<lparr>Date = Date row, Amount = Amount row,
                       Description = strictClean (Description row)\<rparr> \<in> set ts))"
proof -
  have 1: "categoryOf RegExp allCats ks row = Inr ''Income''"
    using assms by (simp add: categoryOf_def)
  have 2: "categorizeTransactions RegExp CATEGORIES custom [row]
           = Inr [(''Income'', [\<lparr>Date = Date row, Amount = Amount row,
                                  Description = strictClean (Description row)\<rparr>])]"
    using assms
    by (simp add: categoryOf_def categorizeTransactions_def pushTo_def object_prototype_names_def)
  have 3: "\<exists>ts. map_of g ''Income'' = Some ts
                  \<and> \<lparr>Date = Date row, Amount = Amount row,
                       Description = strictClean (Description row)\<rparr> \<in> set ts"
    if "row \<in> set data" "categorizeTransactions RegExp CATEGORIES custom data = Inr g"
    using that assms categorizeRows_income
    unfolding categorizeTransactions_def Let_def by blast
  from 1 2 3 show ?thesis by blast
qed

theorem positive_amount_is_income_witness:
  "gt0 (Amount \<lparr>Date = ''2024-03-04'', Amount = Fin 1500, Description = ''PAYROLL DEPOSIT''\<rparr>)
   \<and> categoryOf (\<lambda>p. Inl SyntaxError) [(''PAYROLL'', ''Misc'')] [''PAYROLL'']
         \<lparr>Date = ''2024-03-04'', Amount = Fin 1500, Description = ''PAYROLL DEPOSIT''\<rparr>
       = Inr ''Income''
   \<and> categorizeTransactions js_RegExp [] [(''ABC('', ''Misc'')]
         [\<lparr>Date = ''2024-03-04'', Amount = Fin 1500, Description = ''PAYROLL DEPOSIT''\<rparr>]
       = Inr [(''Income'',
               [\<lparr>Date = ''2024-03-04'', Amount = Fin 1500, Description = ''PAYROLL DEPOSIT''\<rparr>])]"
proof -
  have s: "strictClean ''PAYROLL DEPOSIT'' = ''PAYROLL DEPOSIT''"
    by code_simp
  show ?thesis
    using positive_amount_is_income
      [where row = "\<lparr>Date = ''2024-03-04'', Amount = Fin 1500, Description = ''PAYROLL DEPOSIT''\<rparr>"
         and RegExp = "\<lambda>p. Inl SyntaxError" and allCats = "[(''PAYROLL'', ''Misc'')]"
         and ks = "[''PAYROLL'']"]
      positive_amount_is_income
      [where row = "\<lparr>Date = ''2024-03-04'', Amount = Fin 1500, Description = ''PAYROLL DEPOSIT''\<rparr>"
         and RegExp = js_RegExp and CATEGORIES = "[]" and custom = "[(''ABC('', ''Misc'')]"]
    by (simp add: s)
qed

section \<open>Categorizer: a keyword that is no pattern\<close>

lemma compile_unbalanced: "compile (keywordPattern ''ABC('') = Inl SyntaxError"
  by code_simp

text \<open>
  C10. The answer \<open>abc(\<close> to the prompt passes the filter of the commit step as the
  keyword \<open>ABC(\<close>, and the handler stores it in the custom table; the pattern built
  from it is a syntax error; and with that keyword in the custom table, categorising a
  transaction that is no income and that no longer keyword matches throws instead of
  returning a grouping.
\<close>

theorem unescaped_keyword_throws:
  "keywordsOf ''abc('' = [''ABC('']
   \<and> customCategories (snd (assignSelected
         [\<lparr>Date = ''2024-03-04'', Amount = Fin (- 900), Description = ''ACME RENT''\<rparr>]
         ''New Category...'' ''Misc'' (Some ''abc('')
         \<lparr>customCategories = [],
          categorized = [(''Uncategorized'',
            [\<lparr>Date = ''2024-03-04'', Amount = Fin (- 900), Description = ''ACME RENT''\<rparr>])]\<rparr>))
       = [(''ABC('', ''Misc'')]
   \<and> js_RegExp (keywordPattern ''ABC('') = Inl SyntaxError
   \<and> categorizeTransactions js_RegExp [(''COFFEE'', ''Dining'')] [(''ABC('', ''Misc'')]
        [\<lparr>Date = ''2024-03-04'', Amount = Fin (- 900), Description = ''ACME RENT''\<rparr>]
       = Inl SyntaxError"
proof -
  have k: "keywordsOf ''abc('' = [''ABC('']"
    by code_simp
  have a: "customCategories (snd (assignSelected
         [\<lparr>Date = ''2024-03-04'', Amount = Fin (- 900), Description = ''ACME RENT''\<rparr>]
         ''New Category...'' ''Misc'' (Some ''abc('')
         \<lparr>customCategories = [],
          categorized = [(''Uncategorized'',
            [\<lparr>Date = ''2024-03-04'', Amount = Fin (- 900), Description = ''ACME RENT''\<rparr>])]\<rparr>))
       = [(''ABC('', ''Misc'')]"
    by code_simp
  have r: "js_RegExp (keywordPattern ''ABC('') = Inl SyntaxError"
    by (simp add: js_RegExp_def compile_unbalanced)
  have c: "categorizeTransactions js_RegExp [(''COFFEE'', ''Dining'')] [(''ABC('', ''Misc'')]
        [\<lparr>Date = ''2024-03-04'', Amount = Fin (- 900), Description = ''ACME RENT''\<rparr>]
       = Inl SyntaxError"
    by code_simp
  from k a r c show ?thesis by simp
qed

section \<open>ReassignmentEngine\<close>

text \<open>
  C3. Two transactions of the group "Uncategorized" share Date and Description and
  differ in Amount. The first one is selected and assigned to "Coffee". After the move
  the second one, which was not selected, is in no group: the group it was in is empty
  and the target group holds the selected transaction only.
\<close>

theorem reassign_drops_twin:
  "reassign ''Coffee''
     [\<lparr>Date = ''2024-01-01'', Amount = Fin (- 5), Description = ''COFFEE''\<rparr>]
     [(''Uncategorized'',
       [\<lparr>Date = ''2024-01-01'', Amount = Fin (- 5), Description = ''COFFEE''\<rparr>,
        \<lparr>Date = ''2024-01-01'', Amount = Fin (- 7), Description = ''COFFEE''\<rparr>])]
   = Inr [(''Uncategorized'', []),
          (''Coffee'', [\<lparr>Date = ''2024-01-01'', Amount = Fin (- 5), Description = ''COFFEE''\<rparr>])]"
  by code_simp

section \<open>KeywordLearner: the commit step\<close>

text \<open>
  C4. One transaction is selected for the new category "Coffee". The answer \<open>ab\<close> to
  the prompt is not empty, and the filter of the commit step keeps none of its
  entries. The handler does not reject the action: it ends normally, the custom table
  is as before, and the selected transaction has moved from "Uncategorized" to
  "Coffee". With an empty answer the handler does reject the action and leaves the
  state as it is.
\<close>

theorem empty_keyword_list_still_moves:
  "keywordsOf ''ab'' = []
   \<and> assignSelected
        [\<lparr>Date = ''2024-01-01'', Amount = Fin (- 5), Description = ''COFFEE''\<rparr>]
        ''New Category...'' ''Coffee'' (Some ''ab'')
        \<lparr>customCategories = [],
         categorized = [(''Uncategorized'',
           [\<lparr>Date = ''2024-01-01'', Amount = Fin (- 5), Description = ''COFFEE''\<rparr>])]\<rparr>
     = (Done,
        \<lparr>customCategories = [],
         categorized = [(''Uncategorized'', []),
           (''Coffee'', [\<lparr>Date = ''2024-01-01'', Amount = Fin (- 5), Description = ''COFFEE''\<rparr>])]\<rparr>)
   \<and> assignSelected
        [\<lparr>Date = ''2024-01-01'', Amount = Fin (- 5), Description = ''COFFEE''\<rparr>]
        ''New Category...'' ''Coffee'' (Some [])
        \<lparr>customCategories = [],
         categorized = [(''Uncategorized'',
           [\<lparr>Date = ''2024-01-01'', Amount = Fin (- 5), Description = ''COFFEE''\<rparr>])]\<rparr>
     = (Alerted EnterAKeyword,
        \<lparr>customCategories = [],
         categorized = [(''Uncategorized'',
           [\<lparr>Date = ''2024-01-01'', Amount = Fin (- 5), Description = ''COFFEE''\<rparr>])]\<rparr>)"
  by code_simp

section \<open>Categorizer: the longest keyword first\<close>

lemma set_own_keys: "set (own_keys obj) = fst ` set obj"
  by (auto simp: own_keys_def Let_def)

lemma set_sortedKeywords: "set (sortedKeywords obj) = fst ` set obj"
  by (simp add: sortedKeywords_def set_own_keys)

lemma sorted_sortedKeywords:
  "sorted (map (\<lambda>k. - int (length k)) (sortedKeywords obj))"
  by (simp add: sortedKeywords_def)

lemma firstMatch_returns:
  "\<forall>k\<in>set ks. builds RegExp k \<Longrightarrow> \<exists>c. firstMatch RegExp allCats desc ks = Inr c"
  by (induction ks) (auto simp: builds_def split: sum.splits)

lemma firstMatch_find:
  "firstMatch RegExp allCats desc ks = Inr c \<Longrightarrow>
   c = (case find (\<lambda>k. keywordMatches RegExp k desc) ks of
          Some k \<Rightarrow> getProp allCats k | None \<Rightarrow> ''Uncategorized'')"
  by (induction ks) (auto simp: keywordMatches_def split: sum.splits if_splits)

lemma find_sorted_least:
  "sorted (map f ks) \<Longrightarrow> find P ks = Some k \<Longrightarrow> k' \<in> set ks \<Longrightarrow> P k' \<Longrightarrow> f k \<le> (f k' :: int)"
  by (induction ks) (auto split: if_splits)

text \<open>
  The loop over the keywords, in terms of the test that the code applies (the pattern
  built from the keyword is found in the description). For a transaction whose Amount
  is not greater than 0 the loop returns a category when every pattern builds; a
  category that it returns is that of a keyword whose pattern is found and that is at
  least as long as every keyword whose pattern is found, or "Uncategorized" when no
  pattern is found.
\<close>

lemma firstMatch_longest_pattern:
  assumes "\<not> gt0 (Amount row)"
  shows "((\<forall>k\<in>fst ` set allCats. builds RegExp k) \<longrightarrow>
            (\<exists>c. categoryOf RegExp allCats (sortedKeywords allCats) row = Inr c))
     \<and> (categoryOf RegExp allCats (sortedKeywords allCats) row = Inr c \<longrightarrow>
          (\<exists>k\<in>fst ` set allCats.
              keywordMatches RegExp k (strictClean (Description row))
              \<and> c = getProp allCats k
              \<and> (\<forall>k'\<in>fst ` set allCats.
                   keywordMatches RegExp k' (strictClean (Description row))
                   \<longrightarrow> length k' \<le> length k))
          \<or> ((\<forall>k\<in>fst ` set allCats.
                 \<not> keywordMatches RegExp k (strictClean (Description row)))
              \<and> c = ''Uncategorized''))"
proof (intro conjI impI)
  assume "\<forall>k\<in>fst ` set allCats. builds RegExp k"
  then have "\<forall>k\<in>set (sortedKeywords allCats). builds RegExp k"
    by (simp add: set_sortedKeywords)
  from firstMatch_returns [OF this]
  show "\<exists>c. categoryOf RegExp allCats (sortedKeywords allCats) row = Inr c"
    using assms by (simp add: categoryOf_def)
next
  let ?ks = "sortedKeywords allCats"
  let ?d = "strictClean (Description row)"
  let ?P = "\<lambda>k. keywordMatches RegExp k ?d"
  assume "categoryOf RegExp allCats ?ks row = Inr c"
  then have "firstMatch RegExp allCats ?d ?ks = Inr c"
    using assms by (simp add: categoryOf_def)
  then have cat: "c = (case find ?P ?ks of
      Some k \<Rightarrow> getProp allCats k | None \<Rightarrow> ''Uncategorized'')"
    by (rule firstMatch_find)
  show "(\<exists>k\<in>fst ` set allCats. ?P k \<and> c = getProp allCats k
            \<and> (\<forall>k'\<in>fst ` set allCats. ?P k' \<longrightarrow> length k' \<le> length k))
        \<or> ((\<forall>k\<in>fst ` set allCats. \<not> ?P k) \<and> c = ''Uncategorized'')"
  proof (cases "find ?P ?ks")
    case None
    then have "\<forall>k\<in>fst ` set allCats. \<not> ?P k"
      by (simp add: find_None_iff set_sortedKeywords)
    with cat None show ?thesis by simp
  next
    case (Some k)
    then have k: "k \<in> fst ` set allCats" "?P k"
      by (auto simp: find_Some_iff set_sortedKeywords [symmetric])
    have "\<forall>k'\<in>fst ` set allCats. ?P k' \<longrightarrow> length k' \<le> length k"
    proof (intro ballI impI)
      fix k' assume "k' \<in> fst ` set allCats" "?P k'"
      then have "- int (length k) \<le> - int (length k')"
        using find_sorted_least [OF sorted_sortedKeywords Some, of k']
        by (simp add: set_sortedKeywords)
      then show "length k' \<le> length k" by simp
    qed
    with cat Some k show ?thesis by auto
  qed
qed

lemma firstMatch_longest_pattern_instance:
  "\<not> gt0 (Amount \<lparr>Date = ''2024-03-04'', Amount = Fin (- 42), Description = ''WHOLE FOODS MARKET #12''\<rparr>)
   \<and> builds js_RegExp ''FOODS'' \<and> builds js_RegExp ''WHOLE FOODS''
   \<and> keywordMatches js_RegExp ''FOODS'' (strictClean ''WHOLE FOODS MARKET #12'')
   \<and> keywordMatches js_RegExp ''WHOLE FOODS'' (strictClean ''WHOLE FOODS MARKET #12'')
   \<and> categoryOf js_RegExp [(''FOODS'', ''Dining''), (''WHOLE FOODS'', ''Groceries'')]
         (sortedKeywords [(''FOODS'', ''Dining''), (''WHOLE FOODS'', ''Groceries'')])
         \<lparr>Date = ''2024-03-04'', Amount = Fin (- 42), Description = ''WHOLE FOODS MARKET #12''\<rparr>
       = Inr ''Groceries''"
proof -
  let ?r = "\<lparr>Date = ''2024-03-04'', Amount = Fin (- 42), Description = ''WHOLE FOODS MARKET #12''\<rparr>"
  let ?S = "[(''FOODS'', ''Dining''), (''WHOLE FOODS'', ''Groceries'')]"
  have a: "\<not> gt0 (Amount ?r)" by simp
  have b1: "builds js_RegExp ''FOODS''" by code_simp
  have b2: "builds js_RegExp ''WHOLE FOODS''" by code_simp
  have b: "\<forall>k\<in>fst ` set ?S. builds js_RegExp k" using b1 b2 by simp
  have m1: "keywordMatches js_RegExp ''FOODS'' (strictClean ''WHOLE FOODS MARKET #12'')"
    by code_simp
  have m2: "keywordMatches js_RegExp ''WHOLE FOODS'' (strictClean ''WHOLE FOODS MARKET #12'')"
    by code_simp
  from firstMatch_longest_pattern [OF a, of ?S js_RegExp] b
  obtain c where c: "categoryOf js_RegExp ?S (sortedKeywords ?S) ?r = Inr c"
    by blast
  with firstMatch_longest_pattern [OF a, of ?S js_RegExp c] m1 m2
  have "c = ''Groceries''"
    by (auto simp: getProp_def)
  with c a b1 b2 m1 m2 show ?thesis by simp
qed

text \<open>
  C2. The base table maps "FOODS" and "WHOLE FOODS"; the custom table holds the
  keyword \<open>SUPERMARKET(\<close>, which the commit step accepts. For the description
  "ACME RENT" no keyword of the store occurs as a whole word, and the run throws a
  syntax error where the claim has the category "Uncategorized". For the description
  "WHOLE FOODS MARKET #12" the keywords "FOODS" and "WHOLE FOODS" both occur as
  whole words and the third keyword does not, and the run throws where the claim has
  the category of "WHOLE FOODS"; without the third keyword it is that category. And
  the keyword \<open>C.T\<close> does not occur in the description "CAT FOOD", which is given its
  category all the same. In each case the text of the keyword is read as a pattern.
\<close>

theorem keyword_text_read_as_pattern:
  "keywordsOf ''supermarket(, c.t'' = [''SUPERMARKET('', ''C.T'']
   \<and> \<not> occursAsWholeWord ''FOODS'' (strictClean ''ACME RENT'')
   \<and> \<not> occursAsWholeWord ''WHOLE FOODS'' (strictClean ''ACME RENT'')
   \<and> \<not> occursAsWholeWord ''SUPERMARKET('' (strictClean ''ACME RENT'')
   \<and> categorizeTransactions js_RegExp
        [(''FOODS'', ''Dining''), (''WHOLE FOODS'', ''Groceries'')] [(''SUPERMARKET('', ''Misc'')]
        [\<lparr>Date = ''2024-03-04'', Amount = Fin (- 900), Description = ''ACME RENT''\<rparr>]
      = Inl SyntaxError
   \<and> occursAsWholeWord ''FOODS'' (strictClean ''WHOLE FOODS MARKET #12'')
   \<and> occursAsWholeWord ''WHOLE FOODS'' (strictClean ''WHOLE FOODS MARKET #12'')
   \<and> \<not> occursAsWholeWord ''SUPERMARKET('' (strictClean ''WHOLE FOODS MARKET #12'')
   \<and> categorizeTransactions js_RegExp
        [(''FOODS'', ''Dining''), (''WHOLE FOODS'', ''Groceries'')] [(''SUPERMARKET('', ''Misc'')]
        [\<lparr>Date = ''2024-03-04'', Amount = Fin (- 42), Description = ''WHOLE FOODS MARKET #12''\<rparr>]
      = Inl SyntaxError
   \<and> categorizeTransactions js_RegExp
        [(''FOODS'', ''Dining''), (''WHOLE FOODS'', ''Groceries'')] []
        [\<lparr>Date = ''2024-03-04'', Amount = Fin (- 42), Description = ''WHOLE FOODS MARKET #12''\<rparr>]
      = Inr [(''Groceries'',
           [\<lparr>Date = ''2024-03-04'', Amount = Fin (- 42), Description = ''WHOLE FOODS MARKET 12''\<rparr>])]
   \<and> \<not> occursAsWholeWord ''C.T'' (strictClean ''CAT FOOD'')
   \<and> categorizeTransactions js_RegExp [] [(''C.T'', ''Pets'')]
        [\<lparr>Date = ''2024-03-04'', Amount = Fin (- 8), Description = ''CAT FOOD''\<rparr>]
      = Inr [(''Pets'',
           [\<lparr>Date = ''2024-03-04'', Amount = Fin (- 8), Description = ''CAT FOOD''\<rparr>])]"
proof -
  have k: "keywordsOf ''supermarket(, c.t'' = [''SUPERMARKET('', ''C.T'']"
    by code_simp
  have a1: "\<not> occursAsWholeWord ''FOODS'' (strictClean ''ACME RENT'')"
    by code_simp
  have a2: "\<not> occursAsWholeWord ''WHOLE FOODS'' (strictClean ''ACME RENT'')"
    by code_simp
  have a3: "\<not> occursAsWholeWord ''SUPERMARKET('' (strictClean ''ACME RENT'')"
    by code_simp
  have a: "categorizeTransactions js_RegExp
        [(''FOODS'', ''Dining''), (''WHOLE FOODS'', ''Groceries'')] [(''SUPERMARKET('', ''Misc'')]
        [\<lparr>Date = ''2024-03-04'', Amount = Fin (- 900), Description = ''ACME RENT''\<rparr>]
      = Inl SyntaxError"
    by code_simp
  have w1: "occursAsWholeWord ''FOODS'' (strictClean ''WHOLE FOODS MARKET #12'')"
    by code_simp
  have w2: "occursAsWholeWord ''WHOLE FOODS'' (strictClean ''WHOLE FOODS MARKET #12'')"
    by code_simp
  have w3: "\<not> occursAsWholeWord ''SUPERMARKET('' (strictClean ''WHOLE FOODS MARKET #12'')"
    by code_simp
  have w: "categorizeTransactions js_RegExp
        [(''FOODS'', ''Dining''), (''WHOLE FOODS'', ''Groceries'')] [(''SUPERMARKET('', ''Misc'')]
        [\<lparr>Date = ''2024-03-04'', Amount = Fin (- 42), Description = ''WHOLE FOODS MARKET #12''\<rparr>]
      = Inl SyntaxError"
    by code_simp
  have g: "categorizeTransactions js_RegExp
        [(''FOODS'', ''Dining''), (''WHOLE FOODS'', ''Groceries'')] []
        [\<lparr>Date = ''2024-03-04'', Amount = Fin (- 42), Description = ''WHOLE FOODS MARKET #12''\<rparr>]
      = Inr [(''Groceries'',
           [\<lparr>Date = ''2024-03-04'', Amount = Fin (- 42), Description = ''WHOLE FOODS MARKET 12''\<rparr>])]"
    by code_simp
  have c1: "\<not> occursAsWholeWord ''C.T'' (strictClean ''CAT FOOD'')"
    by code_simp
  have c: "categorizeTransactions js_RegExp [] [(''C.T'', ''Pets'')]
        [\<lparr>Date = ''2024-03-04'', Amount = Fin (- 8), Description = ''CAT FOOD''\<rparr>]
      = Inr [(''Pets'',
           [\<lparr>Date = ''2024-03-04'', Amount = Fin (- 8), Description = ''CAT FOOD''\<rparr>])]"
    by code_simp
  from k a1 a2 a3 a w1 w2 w3 w g c1 c show ?thesis
    by (intro conjI)
qed

section \<open>Date shapes\<close>

lemma not_digit_slash: "\<not> is_digit (CHR ''/'')"
  by (simp add: is_digit_def)

lemma not_digit_hyphen: "\<not> is_digit (CHR ''-'')"
  by (simp add: is_digit_def)

lemma digits_1_2_iff:
  "digits_1_2 s = Some (d, r) \<longleftrightarrow>
     s = d @ ''/'' @ r \<and> list_all is_digit d \<and> (length d = 1 \<or> length d = 2)"
proof
  assume a: "digits_1_2 s = Some (d, r)"
  let ?r = "dropWhile is_digit s"
  from a have d: "d = takeWhile is_digit s" and l: "length d = 1 \<or> length d = 2"
    and ne: "?r \<noteq> []" and h: "hd ?r = CHR ''/''" and r: "r = tl ?r"
    by (auto simp: digits_1_2_def Let_def split: if_splits)
  from ne h r have "?r = CHR ''/'' # r"
    by (cases ?r) auto
  then have "s = d @ ''/'' @ r"
    using takeWhile_dropWhile_id [of is_digit s] d by simp
  moreover have "list_all is_digit d"
    unfolding d list_all_iff by (auto dest: set_takeWhileD)
  ultimately show "s = d @ ''/'' @ r \<and> list_all is_digit d \<and> (length d = 1 \<or> length d = 2)"
    using l by simp
next
  assume a: "s = d @ ''/'' @ r \<and> list_all is_digit d \<and> (length d = 1 \<or> length d = 2)"
  then have all: "\<forall>c\<in>set d. is_digit c"
    by (simp add: list_all_iff)
  from a all have t: "takeWhile is_digit s = d"
    by (simp add: takeWhile_append2 not_digit_slash)
  from a all have dr: "dropWhile is_digit s = CHR ''/'' # r"
    by (simp add: dropWhile_append2 not_digit_slash)
  from a t dr show "digits_1_2 s = Some (d, r)"
    by (simp add: digits_1_2_def Let_def)
qed

lemma execMDY_iff:
  "execMDY s = Some (m, d, y) \<longleftrightarrow> s = m @ ''/'' @ d @ ''/'' @ y \<and> monthDayYear m d y"
proof
  assume a: "execMDY s = Some (m, d, y)"
  then obtain r1 where 1: "digits_1_2 s = Some (m, r1)"
    and 2: "digits_1_2 r1 = Some (d, y)" and 3: "length y = 4" "list_all is_digit y"
    by (auto simp: execMDY_def split: option.splits if_splits)
  from 1 2 3 show "s = m @ ''/'' @ d @ ''/'' @ y \<and> monthDayYear m d y"
    by (simp add: digits_1_2_iff monthDayYear_def)
next
  assume a: "s = m @ ''/'' @ d @ ''/'' @ y \<and> monthDayYear m d y"
  then have 1: "digits_1_2 s = Some (m, d @ ''/'' @ y)"
    by (simp add: digits_1_2_iff monthDayYear_def)
  from a have 2: "digits_1_2 (d @ ''/'' @ y) = Some (d, y)"
    by (simp add: digits_1_2_iff monthDayYear_def)
  from a 1 2 show "execMDY s = Some (m, d, y)"
    by (simp add: execMDY_def monthDayYear_def)
qed

lemma looksMDY_iff: "looksMDY s \<longleftrightarrow> shapeMDY s"
proof
  assume "looksMDY s"
  then obtain m d y where "execMDY s = Some (m, d, y)"
    by (auto simp: looksMDY_def)
  then show "shapeMDY s"
    unfolding shapeMDY_def execMDY_iff by blast
next
  assume "shapeMDY s"
  then obtain m d y where "execMDY s = Some (m, d, y)"
    unfolding shapeMDY_def execMDY_iff [symmetric] by blast
  then show "looksMDY s"
    by (simp add: looksMDY_def)
qed

lemma length_10_conv:
  "length s = 10 \<longleftrightarrow> (\<exists>a b c d e f g h i j. s = [a, b, c, d, e, f, g, h, i, j])"
  by (auto simp: length_Suc_conv numeral_eq_Suc)

lemma looksISO_iff: "looksISO s \<longleftrightarrow> shapeISO s"
proof
  assume a: "looksISO s"
  then obtain a b c d e f g h i j where s: "s = [a, b, c, d, e, f, g, h, i, j]"
    unfolding looksISO_def length_10_conv by blast
  from a have "s = [a, b, c, d] @ ''-'' @ [f, g] @ ''-'' @ [i, j]
      \<and> list_all is_digit [a, b, c, d] \<and> list_all is_digit [f, g] \<and> list_all is_digit [i, j]"
    unfolding s by (simp add: looksISO_def)
  then show "shapeISO s"
    unfolding shapeISO_def by (intro exI [of _ "[a, b, c, d]"] exI [of _ "[f, g]"] exI [of _ "[i, j]"]) simp
next
  assume "shapeISO s"
  then obtain y m d where s: "s = y @ ''-'' @ m @ ''-'' @ d"
    and y: "list_all is_digit y" "length y = 4"
    and m: "list_all is_digit m" "length m = 2"
    and d: "list_all is_digit d" "length d = 2"
    unfolding shapeISO_def by blast
  then show "looksISO s"
    by (simp add: looksISO_def nth_append)
qed
lemma toLowerCase_headers:
  "toLowerCase ''date'' = ''date''" "toLowerCase ''transaction'' = ''transaction''"
  "toLowerCase ''name'' = ''name''" "toLowerCase ''memo'' = ''memo''"
  "toLowerCase ''amount'' = ''amount''"
  by (simp_all add: toLowerCase_def lower_def)

section \<open>ProfileDetector\<close>

lemma dropWhile_Cons_not: "dropWhile P s = c # r \<Longrightarrow> \<not> P c"
  by (induction s) (auto split: if_splits)

lemma strippedOf_exists: "strippedOf P s (rev (dropWhile P (rev (dropWhile P s))))"
proof -
  let ?y = "dropWhile P s"
  let ?t = "rev (dropWhile P (rev ?y))"
  let ?post = "rev (takeWhile P (rev ?y))"
  have "rev (takeWhile P (rev ?y) @ dropWhile P (rev ?y)) = rev (rev ?y)"
    by (simp only: takeWhile_dropWhile_id)
  then have y: "?y = ?t @ ?post"
    by (simp only: rev_append rev_rev_ident)
  have "s = takeWhile P s @ ?y"
    by simp
  with y have s: "s = takeWhile P s @ ?t @ ?post"
    by (simp only:)
  have pre: "list_all P (takeWhile P s)"
    unfolding list_all_iff by (auto dest: set_takeWhileD)
  have post: "list_all P ?post"
    unfolding list_all_iff by (auto dest: set_takeWhileD)
  have h: "\<not> (\<exists>c r. ?t = c # r \<and> P c)"
  proof
    assume "\<exists>c r. ?t = c # r \<and> P c"
    then obtain c r where t: "?t = c # r" and c: "P c"
      by blast
    from t y have "?y = c # r @ ?post"
      by (simp only: append_Cons)
    then have "\<not> P c"
      by (rule dropWhile_Cons_not)
    with c show False
      by simp
  qed
  have l: "\<not> (\<exists>r c. ?t = r @ [c] \<and> P c)"
  proof
    assume "\<exists>r c. ?t = r @ [c] \<and> P c"
    then obtain r c where t: "?t = r @ [c]" and c: "P c"
      by blast
    from t have "rev ?t = rev (r @ [c])"
      by (simp only:)
    then have "dropWhile P (rev ?y) = c # rev r"
      by (simp only: rev_rev_ident rev_append rev.simps append_Nil append_Cons)
    then have "\<not> P c"
      by (rule dropWhile_Cons_not)
    with c show False
      by simp
  qed
  from s pre post h l show ?thesis
    unfolding strippedOf_def by blast
qed

lemma strippedOf_unique:
  assumes "strippedOf P s t"
  shows "t = rev (dropWhile P (rev (dropWhile P s)))"
proof -
  from assms obtain pre post where s: "s = pre @ t @ post"
    and pre: "\<forall>c\<in>set pre. P c" and post: "\<forall>c\<in>set post. P c"
    and h: "\<not> (\<exists>c r. t = c # r \<and> P c)" and l: "\<not> (\<exists>r c. t = r @ [c] \<and> P c)"
    unfolding strippedOf_def list_all_iff by blast
  show ?thesis
  proof (cases t rule: rev_cases)
    case Nil
    with s pre post have "\<forall>c\<in>set s. P c"
      by auto
    then have "dropWhile P s = []"
      by (simp only: dropWhile_eq_Nil_conv)
    with Nil show ?thesis
      by (simp only: rev.simps dropWhile.simps)
  next
    case (snoc r' c')
    with l have c': "\<not> P c'"
      by blast
    have "t \<noteq> []"
      unfolding snoc by simp
    then obtain c r where t: "t = c # r"
      by (cases t) simp_all
    with h have c: "\<not> P c"
      by blast
    have 1: "dropWhile P s = t @ post"
      unfolding s using pre c t by (simp add: dropWhile_append2)
    have rp: "\<And>x. x \<in> set (rev post) \<Longrightarrow> P x"
      using post by simp
    have "dropWhile P (rev post @ rev t) = dropWhile P (rev t)"
      by (rule dropWhile_append2) (rule rp)
    also have "\<dots> = rev t"
      unfolding snoc using c' by simp
    finally have 2: "dropWhile P (rev (t @ post)) = rev t"
      by simp
    from 1 2 show ?thesis
      by simp
  qed
qed

lemma strippedOf_iff: "strippedOf P s t \<longleftrightarrow> t = rev (dropWhile P (rev (dropWhile P s)))"
  using strippedOf_exists [of P s] strippedOf_unique [of P s t] by blast

lemma unquotedAndTrimmed_iff: "unquotedAndTrimmed row i t \<longleftrightarrow> t = cell row i"
proof -
  have "removeAll (CHR 0x22) (cellText row i)
      = filter (\<lambda>c. c \<noteq> CHR 0x22) (if i < length row then row ! i else [])"
    by (simp add: removeAll_filter_not_eq cellText_def eq_commute)
  then show ?thesis
    by (simp add: unquotedAndTrimmed_def strippedOf_iff cell_def trim_def)
qed

lemma detectProfile_chain:
  "detectProfile (Some row) =
     profileByRules (length row) (cell row 0) (cell row 1) (cell row 2) (cell row 3) (cell row 4)"
  unfolding detectProfile_def profileByRules_def Let_def equalIgnoringCase_def
    toLowerCase_headers looksMDY_iff looksISO_iff option.case
  by (rule refl)

text \<open>
  C6. With \<open>c0 .. c4\<close> the first five cells of the row, a missing cell being empty,
  each with every double quote removed (not only the surrounding ones) and then the
  surrounding white space stripped: such cells exist for every row, and with them
  \<open>detectProfile\<close> follows the ordered rules. No row and a row of fewer than three cells
  are \<open>Unknown\<close>; otherwise the first rule that applies decides: the five header
  names, whatever their case; \<open>c0\<close> of the shape month/day/year with \<open>c2\<close> equal to
  \<open>*\<close>; \<open>c0\<close> of the shape year-month-day with at least five cells; \<open>Unknown\<close>.
\<close>

theorem detectProfile_rules:
  "detectProfile None = Unknown
   \<and> (\<exists>c0 c1 c2 c3 c4.
         unquotedAndTrimmed row 0 c0 \<and> unquotedAndTrimmed row 1 c1
         \<and> unquotedAndTrimmed row 2 c2 \<and> unquotedAndTrimmed row 3 c3
         \<and> unquotedAndTrimmed row 4 c4)
   \<and> (unquotedAndTrimmed row 0 c0 \<and> unquotedAndTrimmed row 1 c1
       \<and> unquotedAndTrimmed row 2 c2 \<and> unquotedAndTrimmed row 3 c3
       \<and> unquotedAndTrimmed row 4 c4
       \<longrightarrow> detectProfile (Some row) = profileByRules (length row) c0 c1 c2 c3 c4)"
proof (intro conjI impI)
  show "detectProfile None = Unknown"
    by (simp add: detectProfile_def)
next
  show "\<exists>c0 c1 c2 c3 c4.
         unquotedAndTrimmed row 0 c0 \<and> unquotedAndTrimmed row 1 c1
         \<and> unquotedAndTrimmed row 2 c2 \<and> unquotedAndTrimmed row 3 c3
         \<and> unquotedAndTrimmed row 4 c4"
    unfolding unquotedAndTrimmed_iff by blast
next
  assume "unquotedAndTrimmed row 0 c0 \<and> unquotedAndTrimmed row 1 c1
       \<and> unquotedAndTrimmed row 2 c2 \<and> unquotedAndTrimmed row 3 c3
       \<and> unquotedAndTrimmed row 4 c4"
  then have "c0 = cell row 0" "c1 = cell row 1" "c2 = cell row 2" "c3 = cell row 3"
    "c4 = cell row 4"
    unfolding unquotedAndTrimmed_iff by blast+
  then show "detectProfile (Some row) = profileByRules (length row) c0 c1 c2 c3 c4"
    by (simp only: detectProfile_chain)
qed

theorem detectProfile_rules_witness:
  "unquotedAndTrimmed
       [CHR 0x22 # ''Date'' @ [CHR 0x22], '' Transaction'', ''Name'', ''Memo'', ''Amount''] 0 ''Date''
   \<and> unquotedAndTrimmed
       [CHR 0x22 # ''Date'' @ [CHR 0x22], '' Transaction'', ''Name'', ''Memo'', ''Amount''] 1 ''Transaction''
   \<and> detectProfile
       (Some [CHR 0x22 # ''Date'' @ [CHR 0x22], '' Transaction'', ''Name'', ''Memo'', ''Amount''])
     = USBank_WithHeaders
   \<and> unquotedAndTrimmed ['' 3/4/2024'', ''-12.00'', ''*''] 0 ''3/4/2024''
   \<and> unquotedAndTrimmed ['' 3/4/2024'', ''-12.00'', ''*''] 4 []
   \<and> detectProfile (Some ['' 3/4/2024'', ''-12.00'', ''*'']) = YourBank_NoHeader_5Cols
   \<and> detectProfile (Some [''2024-03-04'', ''DEBIT'', ''ACME'', ''RENT'', ''-900.00''])
     = USBank_NoHeaderBody
   \<and> detectProfile (Some [''2024-03-04'', ''DEBIT'', ''ACME'', ''RENT'']) = Unknown
   \<and> detectProfile (Some [''Date'', ''Transaction'']) = Unknown"
proof -
  let ?H = "[CHR 0x22 # ''Date'' @ [CHR 0x22], '' Transaction'', ''Name'', ''Memo'', ''Amount'']"
  let ?M = "['' 3/4/2024'', ''-12.00'', ''*'']"
  let ?I = "[''2024-03-04'', ''DEBIT'', ''ACME'', ''RENT'', ''-900.00'']"
  let ?J = "[''2024-03-04'', ''DEBIT'', ''ACME'', ''RENT'']"
  let ?K = "[''Date'', ''Transaction'']"
  have h0: "unquotedAndTrimmed ?H 0 ''Date''"
    unfolding unquotedAndTrimmed_iff by code_simp
  have h1: "unquotedAndTrimmed ?H 1 ''Transaction''"
    unfolding unquotedAndTrimmed_iff by code_simp
  have h2: "unquotedAndTrimmed ?H 2 ''Name''"
    unfolding unquotedAndTrimmed_iff by code_simp
  have h3: "unquotedAndTrimmed ?H 3 ''Memo''"
    unfolding unquotedAndTrimmed_iff by code_simp
  have h4: "unquotedAndTrimmed ?H 4 ''Amount''"
    unfolding unquotedAndTrimmed_iff by code_simp
  have hp: "equalIgnoringCase ''Date'' ''date'' \<and> equalIgnoringCase ''Transaction'' ''transaction''
      \<and> equalIgnoringCase ''Name'' ''name'' \<and> equalIgnoringCase ''Memo'' ''memo''
      \<and> equalIgnoringCase ''Amount'' ''amount''"
    by code_simp
  have H: "detectProfile (Some ?H) = USBank_WithHeaders"
    using detectProfile_rules [of ?H "''Date''" "''Transaction''" "''Name''" "''Memo''" "''Amount''"]
      h0 h1 h2 h3 h4 hp
    by (simp add: profileByRules_def)
  have m0: "unquotedAndTrimmed ?M 0 ''3/4/2024''"
    unfolding unquotedAndTrimmed_iff by code_simp
  have m1: "unquotedAndTrimmed ?M 1 ''-12.00''"
    unfolding unquotedAndTrimmed_iff by code_simp
  have m2: "unquotedAndTrimmed ?M 2 ''*''"
    unfolding unquotedAndTrimmed_iff by code_simp
  have m3: "unquotedAndTrimmed ?M 3 []"
    unfolding unquotedAndTrimmed_iff by code_simp
  have m4: "unquotedAndTrimmed ?M 4 []"
    unfolding unquotedAndTrimmed_iff by code_simp
  have mh: "\<not> equalIgnoringCase ''3/4/2024'' ''date''"
    by code_simp
  have ms: "shapeMDY ''3/4/2024''"
    unfolding looksMDY_iff [symmetric] by code_simp
  have M: "detectProfile (Some ?M) = YourBank_NoHeader_5Cols"
    using detectProfile_rules [of ?M "''3/4/2024''" "''-12.00''" "''*''" "[]" "[]"]
      m0 m1 m2 m3 m4 mh ms
    by (simp add: profileByRules_def)
  have i0: "unquotedAndTrimmed ?I 0 ''2024-03-04''"
    unfolding unquotedAndTrimmed_iff by code_simp
  have i1: "unquotedAndTrimmed ?I 1 ''DEBIT''"
    unfolding unquotedAndTrimmed_iff by code_simp
  have i2: "unquotedAndTrimmed ?I 2 ''ACME''"
    unfolding unquotedAndTrimmed_iff by code_simp
  have i3: "unquotedAndTrimmed ?I 3 ''RENT''"
    unfolding unquotedAndTrimmed_iff by code_simp
  have i4: "unquotedAndTrimmed ?I 4 ''-900.00''"
    unfolding unquotedAndTrimmed_iff by code_simp
  have j4: "unquotedAndTrimmed ?J 4 []"
    unfolding unquotedAndTrimmed_iff by code_simp
  have j0: "unquotedAndTrimmed ?J 0 ''2024-03-04''"
    unfolding unquotedAndTrimmed_iff by code_simp
  have j1: "unquotedAndTrimmed ?J 1 ''DEBIT''"
    unfolding unquotedAndTrimmed_iff by code_simp
  have j2: "unquotedAndTrimmed ?J 2 ''ACME''"
    unfolding unquotedAndTrimmed_iff by code_simp
  have j3: "unquotedAndTrimmed ?J 3 ''RENT''"
    unfolding unquotedAndTrimmed_iff by code_simp
  have ih: "\<not> equalIgnoringCase ''2024-03-04'' ''date''"
    by code_simp
  have im: "\<not> shapeMDY ''2024-03-04''"
    unfolding looksMDY_iff [symmetric] by code_simp
  have ii: "shapeISO ''2024-03-04''"
    unfolding looksISO_iff [symmetric] by code_simp
  have I: "detectProfile (Some ?I) = USBank_NoHeaderBody"
    using detectProfile_rules [of ?I "''2024-03-04''" "''DEBIT''" "''ACME''" "''RENT''" "''-900.00''"]
      i0 i1 i2 i3 i4 ih im ii
    by (simp add: profileByRules_def)
  have J: "detectProfile (Some ?J) = Unknown"
    using detectProfile_rules [of ?J "''2024-03-04''" "''DEBIT''" "''ACME''" "''RENT''" "[]"]
      j0 j1 j2 j3 j4 ih im ii
    by (simp add: profileByRules_def)
  have k0: "unquotedAndTrimmed ?K 0 ''Date''"
    unfolding unquotedAndTrimmed_iff by code_simp
  have k1: "unquotedAndTrimmed ?K 1 ''Transaction''"
    unfolding unquotedAndTrimmed_iff by code_simp
  have k2: "unquotedAndTrimmed ?K 2 []"
    unfolding unquotedAndTrimmed_iff by code_simp
  have k3: "unquotedAndTrimmed ?K 3 []"
    unfolding unquotedAndTrimmed_iff by code_simp
  have k4: "unquotedAndTrimmed ?K 4 []"
    unfolding unquotedAndTrimmed_iff by code_simp
  have K: "detectProfile (Some ?K) = Unknown"
    using detectProfile_rules [of ?K "''Date''" "''Transaction''" "[]" "[]" "[]"] k0 k1 k2 k3 k4
    by (simp add: profileByRules_def)
  from h0 h1 H m0 m4 M I J K show ?thesis
    by (intro conjI)
qed

text \<open>
  C6 as stated, with only the surrounding quotes and white space stripped, fails on a
  cell that holds a double quote inside. The first cell \<open>da"te\<close> is not the header name
  \<open>date\<close> and no rule applies to the row, yet the row is taken for the header row;
  and the first cell \<open>3/4/20"24\<close> has not the shape month/day/year, yet the row is
  taken for a row of the five-column layout.
\<close>

theorem detectProfile_inner_quote_counterexample:
  "surroundingStripped
       [''da'' @ [CHR 0x22] @ ''te'', ''transaction'', ''name'', ''memo'', ''amount''] 0
       (''da'' @ [CHR 0x22] @ ''te'')
   \<and> surroundingStripped
       [''da'' @ [CHR 0x22] @ ''te'', ''transaction'', ''name'', ''memo'', ''amount''] 1 ''transaction''
   \<and> surroundingStripped
       [''da'' @ [CHR 0x22] @ ''te'', ''transaction'', ''name'', ''memo'', ''amount''] 2 ''name''
   \<and> surroundingStripped
       [''da'' @ [CHR 0x22] @ ''te'', ''transaction'', ''name'', ''memo'', ''amount''] 3 ''memo''
   \<and> surroundingStripped
       [''da'' @ [CHR 0x22] @ ''te'', ''transaction'', ''name'', ''memo'', ''amount''] 4 ''amount''
   \<and> profileByRules 5 (''da'' @ [CHR 0x22] @ ''te'') ''transaction'' ''name'' ''memo'' ''amount''
     = Unknown
   \<and> detectProfile
       (Some [''da'' @ [CHR 0x22] @ ''te'', ''transaction'', ''name'', ''memo'', ''amount''])
     = USBank_WithHeaders
   \<and> surroundingStripped [''3/4/20'' @ [CHR 0x22] @ ''24'', ''-12.00'', ''*''] 0
       (''3/4/20'' @ [CHR 0x22] @ ''24'')
   \<and> surroundingStripped [''3/4/20'' @ [CHR 0x22] @ ''24'', ''-12.00'', ''*''] 1 ''-12.00''
   \<and> surroundingStripped [''3/4/20'' @ [CHR 0x22] @ ''24'', ''-12.00'', ''*''] 2 ''*''
   \<and> surroundingStripped [''3/4/20'' @ [CHR 0x22] @ ''24'', ''-12.00'', ''*''] 3 []
   \<and> surroundingStripped [''3/4/20'' @ [CHR 0x22] @ ''24'', ''-12.00'', ''*''] 4 []
   \<and> profileByRules 3 (''3/4/20'' @ [CHR 0x22] @ ''24'') ''-12.00'' ''*'' [] [] = Unknown
   \<and> detectProfile (Some [''3/4/20'' @ [CHR 0x22] @ ''24'', ''-12.00'', ''*''])
     = YourBank_NoHeader_5Cols"
proof -
  let ?H = "[''da'' @ [CHR 0x22] @ ''te'', ''transaction'', ''name'', ''memo'', ''amount'']"
  let ?M = "[''3/4/20'' @ [CHR 0x22] @ ''24'', ''-12.00'', ''*'']"
  have h0: "surroundingStripped ?H 0 (''da'' @ [CHR 0x22] @ ''te'')"
    unfolding surroundingStripped_def strippedOf_iff by code_simp
  have h1: "surroundingStripped ?H 1 ''transaction''"
    unfolding surroundingStripped_def strippedOf_iff by code_simp
  have h2: "surroundingStripped ?H 2 ''name''"
    unfolding surroundingStripped_def strippedOf_iff by code_simp
  have h3: "surroundingStripped ?H 3 ''memo''"
    unfolding surroundingStripped_def strippedOf_iff by code_simp
  have h4: "surroundingStripped ?H 4 ''amount''"
    unfolding surroundingStripped_def strippedOf_iff by code_simp
  have hh: "\<not> equalIgnoringCase (''da'' @ [CHR 0x22] @ ''te'') ''date''"
    by code_simp
  have hm: "\<not> shapeMDY (''da'' @ [CHR 0x22] @ ''te'')"
    unfolding looksMDY_iff [symmetric] by code_simp
  have hi: "\<not> shapeISO (''da'' @ [CHR 0x22] @ ''te'')"
    unfolding looksISO_iff [symmetric] by code_simp
  from hh hm hi
  have hp: "profileByRules 5 (''da'' @ [CHR 0x22] @ ''te'') ''transaction'' ''name'' ''memo'' ''amount''
      = Unknown"
    by (simp only: profileByRules_def simp_thms if_False if_True split: if_split)
  have H: "detectProfile (Some ?H) = USBank_WithHeaders"
    by code_simp
  have m0: "surroundingStripped ?M 0 (''3/4/20'' @ [CHR 0x22] @ ''24'')"
    unfolding surroundingStripped_def strippedOf_iff by code_simp
  have m1: "surroundingStripped ?M 1 ''-12.00''"
    unfolding surroundingStripped_def strippedOf_iff by code_simp
  have m2: "surroundingStripped ?M 2 ''*''"
    unfolding surroundingStripped_def strippedOf_iff by code_simp
  have m3: "surroundingStripped ?M 3 []"
    unfolding surroundingStripped_def strippedOf_iff by code_simp
  have m4: "surroundingStripped ?M 4 []"
    unfolding surroundingStripped_def strippedOf_iff by code_simp
  have mh: "\<not> equalIgnoringCase (''3/4/20'' @ [CHR 0x22] @ ''24'') ''date''"
    by code_simp
  have mm: "\<not> shapeMDY (''3/4/20'' @ [CHR 0x22] @ ''24'')"
    unfolding looksMDY_iff [symmetric] by code_simp
  have mi: "\<not> shapeISO (''3/4/20'' @ [CHR 0x22] @ ''24'')"
    unfolding looksISO_iff [symmetric] by code_simp
  from mh mm mi
  have mp: "profileByRules 3 (''3/4/20'' @ [CHR 0x22] @ ''24'') ''-12.00'' ''*'' [] [] = Unknown"
    by (simp only: profileByRules_def simp_thms if_False if_True split: if_split)
  have M: "detectProfile (Some ?M) = YourBank_NoHeader_5Cols"
    by code_simp
  from h0 h1 h2 h3 h4 hp H m0 m1 m2 m3 m4 mp M show ?thesis
    by (intro conjI)
qed

section \<open>FieldNormalizer: normalizeDate\<close>

lemma trim_no_surrounding_space:
  assumes "raw \<noteq> []" "\<not> is_space (hd raw)" "\<not> is_space (last raw)"
  shows "trim raw = raw"
proof -
  have 1: "dropWhile is_space raw = raw"
    using assms by (simp add: dropWhile_eq_self_iff)
  have 2: "dropWhile is_space (rev raw) = rev raw"
    using assms by (simp add: dropWhile_eq_self_iff hd_rev)
  show ?thesis
    by (simp add: trim_def 1 2)
qed

lemma padStart2_zeroPadded:
  "length s = 1 \<or> length s = 2 \<Longrightarrow> padStart2 s = zeroPadded s"
  by (auto simp: padStart2_def zeroPadded_def)

lemma monthDayYear_not_ISO:
  assumes "monthDayYear m d y"
  shows "\<not> looksISO (m @ ''/'' @ d @ ''/'' @ y)"
proof
  let ?s = "m @ ''/'' @ d @ ''/'' @ y"
  assume "looksISO ?s"
  then have a: "list_all is_digit (take 4 ?s)"
    by (simp add: looksISO_def)
  from assms have l: "length m < 4"
    by (auto simp: monthDayYear_def)
  have "?s ! length m = CHR ''/''"
    by (simp add: nth_append)
  moreover have "length m < length (take 4 ?s)"
    using l by simp
  ultimately have "CHR ''/'' \<in> set (take 4 ?s)"
    using l by (metis nth_mem nth_take)
  moreover from a have "\<forall>c\<in>set (take 4 ?s). is_digit c"
    by (simp only: list_all_iff)
  ultimately show False
    using not_digit_slash by blast
qed

text \<open>
  C7 as amended. An absent or empty input gives the empty string. Any other
  input is first trimmed of surrounding white space; the trimmed text is returned as
  it is when it has the shape year-month-day, rewritten to year-month-day with month
  and day on two digits when it has the shape month/day/year, and returned as it is in
  every other case. An input with no white space at either end is its own trimmed
  text, so it is returned unchanged unless it has the shape month/day/year.
\<close>

theorem normalizeDate_rules:
  "normalizeDate None = [] \<and> normalizeDate (Some []) = []
   \<and> (raw \<noteq> [] \<longrightarrow>
        (shapeISO (trim raw) \<longrightarrow> normalizeDate (Some raw) = trim raw)
      \<and> (trim raw = m @ ''/'' @ d @ ''/'' @ y \<and> monthDayYear m d y \<longrightarrow>
           normalizeDate (Some raw) = y @ ''-'' @ zeroPadded m @ ''-'' @ zeroPadded d)
      \<and> (\<not> shapeISO (trim raw) \<and> \<not> shapeMDY (trim raw) \<longrightarrow>
           normalizeDate (Some raw) = trim raw)
      \<and> (\<not> is_space (hd raw) \<and> \<not> is_space (last raw) \<longrightarrow> trim raw = raw))"
proof -
  have iso: "shapeISO (trim raw) \<Longrightarrow> raw \<noteq> [] \<Longrightarrow> normalizeDate (Some raw) = trim raw"
    by (simp add: normalizeDate_def looksISO_iff)
  have mdy: "normalizeDate (Some raw) = y @ ''-'' @ zeroPadded m @ ''-'' @ zeroPadded d"
    if "raw \<noteq> []" "trim raw = m @ ''/'' @ d @ ''/'' @ y" "monthDayYear m d y"
  proof -
    from that have e: "execMDY (trim raw) = Some (m, d, y)"
      by (simp add: execMDY_iff)
    from that have n: "\<not> looksISO (trim raw)"
      using monthDayYear_not_ISO [of m d y] by simp
    from that(3) have "padStart2 m = zeroPadded m" "padStart2 d = zeroPadded d"
      by (simp_all add: monthDayYear_def padStart2_zeroPadded)
    with that(1) e n show ?thesis
      by (simp add: normalizeDate_def)
  qed
  have other: "normalizeDate (Some raw) = trim raw"
    if "raw \<noteq> []" "\<not> shapeISO (trim raw)" "\<not> shapeMDY (trim raw)"
  proof -
    from that(3) have "\<not> looksMDY (trim raw)"
      by (simp add: looksMDY_iff)
    then have "execMDY (trim raw) = None"
      unfolding looksMDY_def by blast
    with that show ?thesis
      by (simp add: normalizeDate_def looksISO_iff)
  qed
  show ?thesis
    using iso mdy other trim_no_surrounding_space [of raw]
    by (auto simp: normalizeDate_def)
qed

theorem normalizeDate_rules_witness:
  "'' 3/4/2024'' \<noteq> [] \<and> trim '' 3/4/2024'' = ''3'' @ ''/'' @ ''4'' @ ''/'' @ ''2024''
   \<and> monthDayYear ''3'' ''4'' ''2024''
   \<and> normalizeDate (Some '' 3/4/2024'') = ''2024-03-04''"
proof -
  have t: "trim '' 3/4/2024'' = ''3'' @ ''/'' @ ''4'' @ ''/'' @ ''2024''"
    by code_simp
  have s: "monthDayYear ''3'' ''4'' ''2024''"
    by code_simp
  from normalizeDate_rules [of "'' 3/4/2024''" "''3''" "''4''" "''2024''"] t s show ?thesis
    by (simp add: zeroPadded_def)
qed

text \<open>
  C7 as stated fails on an input with white space around it: it has neither
  shape, and it is not returned unchanged.
\<close>

theorem normalizeDate_unchanged_counterexample:
  "\<not> shapeISO '' N/A'' \<and> \<not> shapeMDY '' N/A'' \<and> '' N/A'' \<noteq> []
   \<and> normalizeDate (Some '' N/A'') = ''N/A'' \<and> normalizeDate (Some '' N/A'') \<noteq> '' N/A''"
proof -
  have 1: "\<not> shapeISO '' N/A''"
    unfolding looksISO_iff [symmetric] by code_simp
  have 2: "\<not> shapeMDY '' N/A''"
    unfolding looksMDY_iff [symmetric] by code_simp
  have 3: "normalizeDate (Some '' N/A'') = ''N/A''"
    by code_simp
  from 1 2 3 show ?thesis by simp
qed

section \<open>FieldNormalizer: normalizeAmount\<close>

lemma parenNeg_iff: "parenNeg s \<longleftrightarrow> wrappedOnOneLine s"
proof
  assume a: "parenNeg s"
  then have ne: "s \<noteq> []" and l: "2 \<le> length s" and h: "hd s = CHR ''(''"
    and e: "last s = CHR '')''" and m: "\<not> list_ex is_line_terminator (butlast (tl s))"
    by (auto simp: parenNeg_def)
  from l have t: "tl s \<noteq> []"
    by (cases s) auto
  then have "tl s = butlast (tl s) @ [last (tl s)]"
    by simp
  moreover from t ne have "last (tl s) = last s"
    by (simp add: last_tl)
  ultimately have "s = ''('' @ butlast (tl s) @ '')''"
    using ne h e by (metis append_Cons append_Nil list.collapse)
  with m show "wrappedOnOneLine s"
    unfolding wrappedOnOneLine_def by blast
next
  assume "wrappedOnOneLine s"
  then obtain mid where "s = ''('' @ mid @ '')''" "\<not> list_ex is_line_terminator mid"
    unfolding wrappedOnOneLine_def by blast
  then show "parenNeg s"
    by (simp add: parenNeg_def butlast_append)
qed

lemma neg_abs_not_positive: "\<not> gt0 (neg (math_abs n))"
  by (cases n) auto

lemma neg_abs_not_NaN: "n \<noteq> NaN \<Longrightarrow> neg (math_abs n) \<noteq> NaN"
  by (cases n) auto

lemma parseFloat_zero: "parseFloat ''0'' = Fin 0"
  by (simp add: parseFloat_def trimStart_def is_space_def unsignedDecimal_def Let_def
      is_digit_def exponentPart_def exp10_def int_of_digits_def digit_val_def)

lemmas amount_eval =
  normalizeAmount_def parenNeg_def trim_def is_space_def is_line_terminator_def
  parseFloat_def trimStart_def unsignedDecimal_def Let_def is_digit_def exponentPart_def
  exp10_def int_of_digits_def digit_val_def

text \<open>
  What \<open>normalizeAmount\<close> computes on every input. An absent input gives 0. Otherwise
  the input is trimmed; commas, dollar signs and parentheses are removed; what is left
  is parsed by \<open>parseFloat\<close> (nothing left counts as 0, an unparsable text gives 0); and
  the result is forced not to be positive when the trimmed input starts with \<open>(\<close>,
  ends with \<open>)\<close> and has no line terminator in between. The result is never \<open>NaN\<close>.
  The four values that the specification lists hold.
\<close>

lemma normalizeAmount_rules:
  "normalizeAmount None = Fin 0
   \<and> normalizeAmount (Some raw) =
       (if withoutAmountMarks (trim raw) = [] then Fin 0
        else if parseFloat (withoutAmountMarks (trim raw)) = NaN then Fin 0
        else if wrappedOnOneLine (trim raw)
          then neg (math_abs (parseFloat (withoutAmountMarks (trim raw))))
        else parseFloat (withoutAmountMarks (trim raw)))
   \<and> (wrappedOnOneLine (trim raw) \<longrightarrow> \<not> gt0 (normalizeAmount (Some raw)))
   \<and> normalizeAmount (Some raw) \<noteq> NaN
   \<and> normalizeAmount (Some ''$1,234.56'') = Fin 1234.56
   \<and> normalizeAmount (Some ''(12.00)'') = Fin (- 12.00)
   \<and> normalizeAmount (Some []) = Fin 0"
proof -
  let ?b = "withoutAmountMarks (trim raw)"
  have f: "filter (\<lambda>c. c \<noteq> CHR ''('' \<and> c \<noteq> CHR '')'')
             (filter (\<lambda>c. c \<noteq> CHR '','' \<and> c \<noteq> CHR ''$'') (trim raw)) = ?b"
    by (simp add: withoutAmountMarks_def conj_ac)
  have eq: "normalizeAmount (Some raw) =
       (if ?b = [] then Fin 0
        else if parseFloat ?b = NaN then Fin 0
        else if wrappedOnOneLine (trim raw) then neg (math_abs (parseFloat ?b))
        else parseFloat ?b)"
    unfolding normalizeAmount_def Let_def option.case f parenNeg_iff
    by (simp add: parseFloat_zero)
  have np: "wrappedOnOneLine (trim raw) \<longrightarrow> \<not> gt0 (normalizeAmount (Some raw))"
    unfolding eq by (simp add: neg_abs_not_positive)
  have nn: "normalizeAmount (Some raw) \<noteq> NaN"
    unfolding eq by (simp add: neg_abs_not_NaN)
  have e1: "normalizeAmount (Some ''$1,234.56'') = Fin 1234.56"
    by (simp add: amount_eval)
  have e2: "normalizeAmount (Some ''(12.00)'') = Fin (- 12.00)"
    by (simp add: amount_eval)
  have e3: "normalizeAmount (Some []) = Fin 0"
    by (simp add: amount_eval)
  from eq np nn e1 e2 e3 show ?thesis
    by (simp add: normalizeAmount_def)
qed

lemma normalizeAmount_rules_instance:
  "wrappedOnOneLine (trim '' (-3.5) '') \<and> \<not> gt0 (normalizeAmount (Some '' (-3.5) ''))
   \<and> normalizeAmount (Some '' (-3.5) '') = Fin (- 3.5)"
proof -
  have w: "wrappedOnOneLine (trim '' (-3.5) '')"
    unfolding parenNeg_iff [symmetric] by code_simp
  have v: "normalizeAmount (Some '' (-3.5) '') = Fin (- 3.5)"
    by (simp add: amount_eval)
  have "wrappedOnOneLine (trim '' (-3.5) '')
      \<longrightarrow> \<not> gt0 (normalizeAmount (Some '' (-3.5) ''))"
    using normalizeAmount_rules [of "'' (-3.5) ''"] by (elim conjE)
  with w have "\<not> gt0 (normalizeAmount (Some '' (-3.5) ''))"
    by (rule rev_mp)
  with w v show ?thesis
    by (intro conjI)
qed

text \<open>
  C8. The cell \<open>(12\<close>, a line feed, \<open>)\<close>, as a quoted field of a CSV file that runs
  over two lines gives it, is wrapped in parentheses, and the result is the positive
  number 12: the pattern that looks for the parentheses uses \<open>.\<close>, which matches no line
  terminator, so the value is not taken for a negative one. The same value on one line
  gives -12.
\<close>

theorem normalizeAmount_parentheses_over_two_lines:
  "wrappedInParentheses (trim [CHR ''('', CHR ''1'', CHR ''2'', CHR 0x0A, CHR '')''])
   \<and> normalizeAmount (Some [CHR ''('', CHR ''1'', CHR ''2'', CHR 0x0A, CHR '')'']) = Fin 12
   \<and> gt0 (normalizeAmount (Some [CHR ''('', CHR ''1'', CHR ''2'', CHR 0x0A, CHR '')'']))
   \<and> wrappedInParentheses (trim ''(12)'')
   \<and> normalizeAmount (Some ''(12)'') = Fin (- 12)"
proof -
  have t: "trim [CHR ''('', CHR ''1'', CHR ''2'', CHR 0x0A, CHR '')'']
      = ''('' @ [CHR ''1'', CHR ''2'', CHR 0x0A] @ '')''"
    by code_simp
  have w: "wrappedInParentheses (trim [CHR ''('', CHR ''1'', CHR ''2'', CHR 0x0A, CHR '')''])"
    unfolding wrappedInParentheses_def t by blast
  have v: "normalizeAmount (Some [CHR ''('', CHR ''1'', CHR ''2'', CHR 0x0A, CHR '')'']) = Fin 12"
    by (simp add: amount_eval)
  have t': "trim ''(12)'' = ''('' @ ''12'' @ '')''"
    by code_simp
  have w': "wrappedInParentheses (trim ''(12)'')"
    unfolding wrappedInParentheses_def t' by blast
  have v': "normalizeAmount (Some ''(12)'') = Fin (- 12)"
    by (simp add: amount_eval)
  from w v w' v' show ?thesis
    by simp
qed

section \<open>Removing the first occurrence of a pattern\<close>

lemma firstOccurrenceRemoved_cases:
  assumes "firstOccurrenceRemoved L s s'"
  obtains (none) "\<not> occursIn L s" "s' = s"
  | (cut) pre w post where "s = pre @ w @ post" "L w" "s' = pre @ post"
      "\<not> (\<exists>pre' w' post'. s = pre' @ w' @ post' \<and> L w' \<and> length pre' < length pre)"
      "\<not> (\<exists>w' post'. w @ post = w' @ post' \<and> L w' \<and> length w < length w')"
  using assms unfolding firstOccurrenceRemoved_def by (elim disjE exE conjE) auto

lemma firstOccurrenceRemoved_cut:
  assumes "s = pre @ w @ post" "L w" "s' = pre @ post"
    "\<not> (\<exists>pre' w' post'. s = pre' @ w' @ post' \<and> L w' \<and> length pre' < length pre)"
    "\<not> (\<exists>w' post'. w @ post = w' @ post' \<and> L w' \<and> length w < length w')"
  shows "firstOccurrenceRemoved L s s'"
  unfolding firstOccurrenceRemoved_def
  by (rule disjI2, rule exI [of _ pre], rule exI [of _ w], rule exI [of _ post])
    (intro conjI assms)

lemma firstOccurrenceRemoved_same:
  "\<not> occursIn L s \<Longrightarrow> firstOccurrenceRemoved L s s"
  by (simp add: firstOccurrenceRemoved_def)

lemma occursIn_Cons:
  assumes "occursIn L (c # cs)"
  shows "(\<exists>w r. c # cs = w @ r \<and> L w) \<or> occursIn L cs"
proof -
  from assms obtain pre w post where o: "c # cs = pre @ w @ post" "L w"
    unfolding occursIn_def by (elim exE conjE)
  show ?thesis
  proof (cases pre)
    case Nil
    with o have "c # cs = w @ post \<and> L w" by simp
    then show ?thesis by (intro disjI1 exI)
  next
    case (Cons x pre')
    with o have "cs = pre' @ w @ post \<and> L w" by simp
    then have "occursIn L cs"
      unfolding occursIn_def by (intro exI)
    then show ?thesis by (rule disjI2)
  qed
qed

lemma remove_first_spec:
  assumes sound: "\<And>t r. m t = Some r \<Longrightarrow>
      \<exists>w. t = w @ r \<and> L w \<and> \<not> (\<exists>w' r'. t = w' @ r' \<and> L w' \<and> length w < length w')"
    and complete: "\<And>w r. L w \<Longrightarrow> m (w @ r) \<noteq> None"
    and nonempty: "\<not> L []"
  shows "firstOccurrenceRemoved L s (remove_first m s)"
proof (induction s)
  case Nil
  have "\<not> occursIn L []"
    using nonempty by (simp add: occursIn_def)
  then show ?case
    by (simp add: firstOccurrenceRemoved_same)
next
  case (Cons c cs)
  show ?case
  proof (cases "m (c # cs)")
    case (Some r)
    from sound [OF Some] obtain w where w: "c # cs = w @ r" "L w"
      "\<not> (\<exists>w' r'. c # cs = w' @ r' \<and> L w' \<and> length w < length w')"
      by (elim exE conjE)
    have rf: "remove_first m (c # cs) = [] @ r"
      using Some by simp
    have 1: "\<not> (\<exists>pre' w' post'. c # cs = pre' @ w' @ post' \<and> L w'
        \<and> length pre' < length ([]::string))"
      by simp
    have 2: "c # cs = [] @ w @ r"
      using w(1) by simp
    have 3: "\<not> (\<exists>w' post'. w @ r = w' @ post' \<and> L w' \<and> length w < length w')"
      using w(3) unfolding w(1) .
    show ?thesis
      by (rule firstOccurrenceRemoved_cut [OF 2 w(2) rf 1 3])
  next
    case None
    have nopre: "\<not> (\<exists>w r. c # cs = w @ r \<and> L w)"
    proof
      assume "\<exists>w r. c # cs = w @ r \<and> L w"
      then obtain w r where "c # cs = w @ r" "L w" by (elim exE conjE)
      with complete [of w r] None show False by simp
    qed
    have rf: "remove_first m (c # cs) = c # remove_first m cs"
      using None by simp
    from Cons.IH show ?thesis
    proof (cases rule: firstOccurrenceRemoved_cases)
      case none
      have "\<not> occursIn L (c # cs)"
        using occursIn_Cons [of L c cs] nopre none(1) by blast
      then show ?thesis
        unfolding rf none(2) by (rule firstOccurrenceRemoved_same)
    next
      case (cut pre w post)
      have left: "\<not> (\<exists>pre' w' post'. c # cs = pre' @ w' @ post' \<and> L w'
          \<and> length pre' < length (c # pre))"
      proof
        assume "\<exists>pre' w' post'. c # cs = pre' @ w' @ post' \<and> L w' \<and> length pre' < length (c # pre)"
        then obtain pre' w' post' where o: "c # cs = pre' @ w' @ post'" "L w'"
          "length pre' < length (c # pre)"
          by (elim exE conjE)
        show False
        proof (cases pre')
          case Nil
          with o have "c # cs = w' @ post' \<and> L w'" by simp
          then have "\<exists>w r. c # cs = w @ r \<and> L w" by (intro exI)
          with nopre show False ..
        next
          case (Cons x p)
          with o have "cs = p @ w' @ post' \<and> L w' \<and> length p < length pre" by simp
          then have "\<exists>pre' w' post'. cs = pre' @ w' @ post' \<and> L w' \<and> length pre' < length pre"
            by (intro exI)
          with cut(4) show False ..
        qed
      qed
      have s: "c # cs = (c # pre) @ w @ post"
        using cut(1) by simp
      have r: "remove_first m (c # cs) = (c # pre) @ post"
        using cut(3) rf by simp
      show ?thesis
        by (rule firstOccurrenceRemoved_cut [OF s cut(2) r left cut(5)])
    qed
  qed
qed

lemma firstOccurrenceRemoved_none:
  "firstOccurrenceRemoved L s s' \<Longrightarrow> \<not> occursIn L s \<Longrightarrow> s' = s"
  unfolding firstOccurrenceRemoved_def occursIn_def by blast


lemma firstOccurrenceRemoved_unique:
  assumes "firstOccurrenceRemoved L s a" "firstOccurrenceRemoved L s b"
  shows "a = b"
  using assms(1)
proof (cases rule: firstOccurrenceRemoved_cases)
  case none
  from assms(2) none(1) have "b = s"
    by (rule firstOccurrenceRemoved_none)
  with none(2) show ?thesis by simp
next
  case (cut pre w post)
  then have o: "occursIn L s"
    unfolding occursIn_def by blast
  from assms(2) show ?thesis
  proof (cases rule: firstOccurrenceRemoved_cases)
    case none
    with o show ?thesis by simp
  next
    case c2: (cut pre2 w2 post2)
    have "\<not> length pre2 < length pre"
      using cut(4) c2(1,2) by blast
    moreover have "\<not> length pre < length pre2"
      using c2(4) cut(1,2) by blast
    ultimately have l: "length pre = length pre2" by simp
    with cut(1) c2(1) have p: "pre = pre2" and r: "w @ post = w2 @ post2"
      by simp_all
    have "\<not> length w < length w2"
      using cut(5) r c2(2) by blast
    moreover have "\<not> length w2 < length w"
      using c2(5) r cut(2) by (metis)
    ultimately have "length w = length w2" by simp
    with r have "post = post2" by simp
    with p cut(3) c2(3) show ?thesis by simp
  qed
qed

section \<open>The two boilerplate patterns\<close>

lemma lit_ci_Some:
  "lit_ci p s = Some r \<longleftrightarrow>
     (\<exists>w. s = w @ r \<and> length w = length p \<and> toUpperCase w = toUpperCase p)"
proof
  assume a: "lit_ci p s = Some r"
  then have "s = take (length p) s @ r \<and> length (take (length p) s) = length p
      \<and> toUpperCase (take (length p) s) = toUpperCase p"
    by (auto simp: lit_ci_def toUpperCase_def split: if_splits)
  then show "\<exists>w. s = w @ r \<and> length w = length p \<and> toUpperCase w = toUpperCase p"
    by blast
next
  assume "\<exists>w. s = w @ r \<and> length w = length p \<and> toUpperCase w = toUpperCase p"
  then show "lit_ci p s = Some r"
    by (auto simp: lit_ci_def toUpperCase_def)
qed

lemma toUpperCase_length: "toUpperCase p = q \<Longrightarrow> length p = length q"
  by (auto simp: toUpperCase_def)

lemma toUpperCase_card: "toUpperCase ''CARD '' = ''CARD ''"
  by (simp add: toUpperCase_def upper_def)

lemma toUpperCase_purchase:
  "toUpperCase ''PURCHASE AUTHORIZED ON '' = ''PURCHASE AUTHORIZED ON ''"
  by (simp add: toUpperCase_def upper_def)

lemma isCardNumber_nonempty: "\<not> isCardNumber []"
  by (simp add: isCardNumber_def)

lemma isPurchaseBoilerplate_nonempty: "\<not> isPurchaseBoilerplate []"
  by (simp add: isPurchaseBoilerplate_def)

lemma match_card_sound:
  assumes "match_card t = Some r"
  shows "\<exists>w. t = w @ r \<and> isCardNumber w
     \<and> \<not> (\<exists>w' r'. t = w' @ r' \<and> isCardNumber w' \<and> length w < length w')"
proof -
  from assms obtain u where u: "lit_ci ''CARD '' t = Some u" "u \<noteq> []" "is_digit (hd u)"
    "r = dropWhile is_digit u"
    by (auto simp: match_card_def split: option.splits if_splits)
  from u(1) obtain p where p: "t = p @ u" "length p = 5" "toUpperCase p = ''CARD ''"
    unfolding lit_ci_Some toUpperCase_card by auto
  let ?ds = "takeWhile is_digit u"
  have ds: "?ds \<noteq> []" "list_all is_digit ?ds"
    using u(2,3) by (cases u, auto simp: list_all_iff dest: set_takeWhileD)
  have t: "t = (p @ ?ds) @ r"
    using p(1) u(4) by simp
  have c: "isCardNumber (p @ ?ds)"
    unfolding isCardNumber_def using p(3) ds by blast
  have le: "length w' \<le> length (p @ ?ds)" if "t = w' @ r'" "isCardNumber w'" for w' r'
  proof -
    from that(2) obtain p' ds' where w': "w' = p' @ ds'" "toUpperCase p' = ''CARD ''"
      "list_all is_digit ds'"
      unfolding isCardNumber_def by blast
    from w'(2) have "length p' = 5"
      by (auto dest: toUpperCase_length)
    with that(1) w'(1) p(1,2) have "p' = p" "u = ds' @ r'"
      by auto
    with w'(3) have "takeWhile is_digit u = ds' @ takeWhile is_digit r'"
      by (simp add: takeWhile_append2 list_all_iff)
    with w'(1) \<open>p' = p\<close> show ?thesis by simp
  qed
  have "\<not> (\<exists>w' r'. t = w' @ r' \<and> isCardNumber w' \<and> length (p @ ?ds) < length w')"
  proof
    assume "\<exists>w' r'. t = w' @ r' \<and> isCardNumber w' \<and> length (p @ ?ds) < length w'"
    then obtain w' r' where "t = w' @ r'" "isCardNumber w'" "length (p @ ?ds) < length w'"
      by blast
    with le [of w' r'] show False by simp
  qed
  with t c show ?thesis by blast
qed

lemma match_card_complete:
  assumes "isCardNumber w"
  shows "match_card (w @ r) \<noteq> None"
proof -
  from assms obtain p ds where w: "w = p @ ds" "toUpperCase p = ''CARD ''" "ds \<noteq> []"
    "list_all is_digit ds"
    unfolding isCardNumber_def by blast
  from w(2) have "length p = 5"
    by (auto dest: toUpperCase_length)
  with w(1,2) have "lit_ci ''CARD '' (w @ r) = Some (ds @ r)"
    unfolding lit_ci_Some toUpperCase_card by auto
  moreover from w(3,4) have "ds @ r \<noteq> [] \<and> is_digit (hd (ds @ r))"
    by (cases ds) auto
  ultimately show ?thesis
    by (simp add: match_card_def)
qed

lemma match_purchase_sound:
  assumes "match_purchase t = Some r"
  shows "\<exists>w. t = w @ r \<and> isPurchaseBoilerplate w
     \<and> \<not> (\<exists>w' r'. t = w' @ r' \<and> isPurchaseBoilerplate w' \<and> length w < length w')"
proof -
  from assms obtain u a b d e where u: "lit_ci ''PURCHASE AUTHORIZED ON '' t = Some u"
    "u = [a, b, CHR ''/'', d, e] @ r" "is_digit a" "is_digit b" "is_digit d" "is_digit e"
    by (auto simp: match_purchase_def split: option.splits list.splits if_splits)
  from u(1) obtain p where p: "t = p @ u" "toUpperCase p = ''PURCHASE AUTHORIZED ON ''"
    unfolding lit_ci_Some toUpperCase_purchase by auto
  let ?w = "p @ [a, b, CHR ''/'', d, e]"
  have t: "t = ?w @ r"
    using p(1) u(2) by simp
  have c: "isPurchaseBoilerplate ?w"
    unfolding isPurchaseBoilerplate_def using p(2) u(3-6) by blast
  have l: "length ?w = 28"
    using p(2) by (auto dest: toUpperCase_length)
  have "length w' = 28" if "isPurchaseBoilerplate w'" for w'
    using that unfolding isPurchaseBoilerplate_def by (auto dest: toUpperCase_length)
  with l have "\<not> (\<exists>w' r'. t = w' @ r' \<and> isPurchaseBoilerplate w' \<and> length ?w < length w')"
    by auto
  with t c show ?thesis by blast
qed

lemma match_purchase_complete:
  assumes "isPurchaseBoilerplate w"
  shows "match_purchase (w @ r) \<noteq> None"
proof -
  from assms obtain p a b c d where w: "w = p @ [a, b, CHR ''/'', c, d]"
    "toUpperCase p = ''PURCHASE AUTHORIZED ON ''"
    "is_digit a" "is_digit b" "is_digit c" "is_digit d"
    unfolding isPurchaseBoilerplate_def by blast
  from w(2) have "length p = 23"
    by (auto dest: toUpperCase_length)
  with w(1,2) have "lit_ci ''PURCHASE AUTHORIZED ON '' (w @ r) = Some ([a, b, CHR ''/'', c, d] @ r)"
    unfolding lit_ci_Some toUpperCase_purchase by auto
  with w(3-6) show ?thesis
    by (simp add: match_purchase_def)
qed

lemma remove_first_card:
  "firstOccurrenceRemoved isCardNumber s (remove_first match_card s)"
proof (rule remove_first_spec [where m = match_card and L = isCardNumber])
  show "\<And>t r. match_card t = Some r \<Longrightarrow>
      \<exists>w. t = w @ r \<and> isCardNumber w
        \<and> \<not> (\<exists>w' r'. t = w' @ r' \<and> isCardNumber w' \<and> length w < length w')"
    by (rule match_card_sound)
  show "\<And>w r. isCardNumber w \<Longrightarrow> match_card (w @ r) \<noteq> None"
    by (rule match_card_complete)
  show "\<not> isCardNumber []"
    by (rule isCardNumber_nonempty)
qed

lemma remove_first_purchase:
  "firstOccurrenceRemoved isPurchaseBoilerplate s (remove_first match_purchase s)"
proof (rule remove_first_spec [where m = match_purchase and L = isPurchaseBoilerplate])
  show "\<And>t r. match_purchase t = Some r \<Longrightarrow>
      \<exists>w. t = w @ r \<and> isPurchaseBoilerplate w
        \<and> \<not> (\<exists>w' r'. t = w' @ r' \<and> isPurchaseBoilerplate w' \<and> length w < length w')"
    by (rule match_purchase_sound)
  show "\<And>w r. isPurchaseBoilerplate w \<Longrightarrow> match_purchase (w @ r) \<noteq> None"
    by (rule match_purchase_complete)
  show "\<not> isPurchaseBoilerplate []"
    by (rule isPurchaseBoilerplate_nonempty)
qed

section \<open>Trimming and collapsing white space\<close>





lemma adjacentWhitespace_Cons:
  assumes "adjacentWhitespace (c # cs)"
  shows "(is_space c \<and> cs \<noteq> [] \<and> is_space (hd cs)) \<or> adjacentWhitespace cs"
proof -
  from assms obtain pre a b post where o: "c # cs = pre @ a # b # post" "is_space a" "is_space b"
    unfolding adjacentWhitespace_def by (elim exE conjE)
  show ?thesis
  proof (cases pre)
    case Nil
    with o show ?thesis by auto
  next
    case (Cons x pre')
    with o have "cs = pre' @ a # b # post \<and> is_space a \<and> is_space b" by simp
    then have "adjacentWhitespace cs"
      unfolding adjacentWhitespace_def by (intro exI)
    then show ?thesis by (rule disjI2)
  qed
qed






section \<open>The strict cleaning pass\<close>






lemma length_remove_first_le:
  assumes "firstOccurrenceRemoved L s s'"
  shows "length s' \<le> length s"
  using assms by (cases rule: firstOccurrenceRemoved_cases) auto




lemma collapse_spaces_hd:
  "collapse_spaces s \<noteq> [] \<Longrightarrow> is_space (hd (collapse_spaces s)) \<Longrightarrow> s \<noteq> [] \<and> is_space (hd s)"
  by (cases s) (auto split: if_splits)

lemma collapse_spaces_no_runs: "\<not> adjacentWhitespace (collapse_spaces s)"
proof (induction s rule: collapse_spaces.induct)
  case 1
  show ?case by (simp add: adjacentWhitespace_def)
next
  case (2 c cs)
  show ?case
  proof (cases "is_space c \<and> cs \<noteq> [] \<and> is_space (hd cs)")
    case True
    let ?r = "dropWhile is_space cs"
    have eq: "collapse_spaces (c # cs) = CHR '' '' # collapse_spaces ?r"
      using True by simp
    have ih: "\<not> adjacentWhitespace (collapse_spaces ?r)"
      using 2(1) True by simp
    have nf: "\<not> (collapse_spaces ?r \<noteq> [] \<and> is_space (hd (collapse_spaces ?r)))"
    proof
      assume "collapse_spaces ?r \<noteq> [] \<and> is_space (hd (collapse_spaces ?r))"
      then have "?r \<noteq> [] \<and> is_space (hd ?r)"
        using collapse_spaces_hd [of ?r] by blast
      then show False
        using hd_dropWhile [of is_space cs] by blast
    qed
    show ?thesis
      unfolding eq using adjacentWhitespace_Cons [of "CHR '' ''" "collapse_spaces ?r"] ih nf
      by blast
  next
    case False
    have eq: "collapse_spaces (c # cs) = c # collapse_spaces cs"
      using False by auto
    have ih: "\<not> adjacentWhitespace (collapse_spaces cs)"
      using 2(2) False by blast
    have nf: "\<not> (is_space c \<and> collapse_spaces cs \<noteq> [] \<and> is_space (hd (collapse_spaces cs)))"
      using False collapse_spaces_hd [of cs] by blast
    show ?thesis
      unfolding eq using adjacentWhitespace_Cons [of c "collapse_spaces cs"] ih nf
      by blast
  qed
qed

section \<open>FieldNormalizer: cleanDesc\<close>

text \<open>
  C9 as amended. \<open>cleanDesc\<close> removes the leftmost occurrence of
  \<open>PURCHASE AUTHORIZED ON <2 digits>/<2 digits>\<close> (in any case) and then, from what
  is left, the leftmost occurrence of \<open>CARD <digits>\<close> (in any case, with all the
  digits that follow); later occurrences stay. It then collapses the runs of two or
  more white space characters to one space, so that no such run is left, trims and
  uppercases. An absent description gives the empty string. Removing the first
  occurrence determines the text that is left, so the statement holds for the result
  of the two removals however it is described.
\<close>

theorem cleanDesc_first_occurrences:
  "cleanDesc None = []
   \<and> (\<exists>s1 s2. firstOccurrenceRemoved isPurchaseBoilerplate s s1
         \<and> firstOccurrenceRemoved isCardNumber s1 s2)
   \<and> (\<forall>s1 s2. firstOccurrenceRemoved isPurchaseBoilerplate s s1
         \<and> firstOccurrenceRemoved isCardNumber s1 s2
         \<longrightarrow> cleanDesc (Some s) = toUpperCase (trim (collapse_spaces s2))
             \<and> \<not> adjacentWhitespace (collapse_spaces s2))"
proof -
  have n: "cleanDesc None = []"
    by (simp add: cleanDesc_def toUpperCase_def trim_def)
  let ?s1 = "remove_first match_purchase s"
  let ?s2 = "remove_first match_card ?s1"
  have r: "firstOccurrenceRemoved isPurchaseBoilerplate s ?s1
      \<and> firstOccurrenceRemoved isCardNumber ?s1 ?s2"
    by (simp add: remove_first_purchase remove_first_card)
  then have e: "\<exists>s1 s2. firstOccurrenceRemoved isPurchaseBoilerplate s s1
      \<and> firstOccurrenceRemoved isCardNumber s1 s2"
    by (intro exI)
  have u: "cleanDesc (Some s) = toUpperCase (trim (collapse_spaces s2))
      \<and> \<not> adjacentWhitespace (collapse_spaces s2)"
    if "firstOccurrenceRemoved isPurchaseBoilerplate s s1"
      "firstOccurrenceRemoved isCardNumber s1 s2" for s1 s2
  proof -
    from that(1) r have 1: "s1 = ?s1"
      by (simp add: firstOccurrenceRemoved_unique)
    with that(2) r have "s2 = ?s2"
      by (simp add: firstOccurrenceRemoved_unique)
    then show ?thesis
      by (simp add: cleanDesc_def collapse_spaces_no_runs)
  qed
  from n e u show ?thesis by blast
qed

theorem cleanDesc_first_occurrences_witness:
  "firstOccurrenceRemoved isPurchaseBoilerplate
      ''purchase authorized on 03/04  Coffee   Shop card 1234'' ''  Coffee   Shop card 1234''
   \<and> firstOccurrenceRemoved isCardNumber ''  Coffee   Shop card 1234'' ''  Coffee   Shop ''
   \<and> cleanDesc (Some ''purchase authorized on 03/04  Coffee   Shop card 1234'')
       = toUpperCase (trim (collapse_spaces ''  Coffee   Shop ''))
   \<and> cleanDesc (Some ''purchase authorized on 03/04  Coffee   Shop card 1234'') = ''COFFEE SHOP''"
proof -
  have p: "remove_first match_purchase ''purchase authorized on 03/04  Coffee   Shop card 1234''
      = ''  Coffee   Shop card 1234''"
    by code_simp
  have c: "remove_first match_card ''  Coffee   Shop card 1234'' = ''  Coffee   Shop ''"
    by code_simp
  have 1: "firstOccurrenceRemoved isPurchaseBoilerplate
      ''purchase authorized on 03/04  Coffee   Shop card 1234'' ''  Coffee   Shop card 1234''"
    using remove_first_purchase [of "''purchase authorized on 03/04  Coffee   Shop card 1234''"]
    unfolding p .
  have 2: "firstOccurrenceRemoved isCardNumber ''  Coffee   Shop card 1234'' ''  Coffee   Shop ''"
    using remove_first_card [of "''  Coffee   Shop card 1234''"]
    unfolding c .
  have v: "toUpperCase (trim (collapse_spaces ''  Coffee   Shop '')) = ''COFFEE SHOP''"
    by code_simp
  from cleanDesc_first_occurrences [of "''purchase authorized on 03/04  Coffee   Shop card 1234''"]
  have "cleanDesc (Some ''purchase authorized on 03/04  Coffee   Shop card 1234'')
       = toUpperCase (trim (collapse_spaces ''  Coffee   Shop ''))"
    using 1 2 by blast
  with 1 2 v show ?thesis by simp
qed

text \<open>
  C9 as stated fails on a description with two card numbers: only the
  first one is removed, where removing every occurrence would leave nothing.
\<close>

theorem cleanDesc_every_occurrence_counterexample:
  "cleanDesc (Some ''CARD 1 CARD 2'') = ''CARD 2''
   \<and> cleanDescEveryOccurrence ''CARD 1 CARD 2'' = []
   \<and> cleanDesc (Some ''CARD 1 CARD 2'') \<noteq> cleanDescEveryOccurrence ''CARD 1 CARD 2''"
  by code_simp

section \<open>Categorizer: the strict cleaning pass twice\<close>







end
